theory Spec2Isabelle
  imports Complex_Main "HOL-Library.Sublist" "HOL-Library.Char_ord" "HOL-Library.List_Lexorder"
begin

section \<open>Granola meeting-cache reader (skills/granola/scripts/granola.ts)\<close>

text \<open>
  A shallow embedding of \<^verbatim>\<open>granola.ts\<close>: the two rich-text flatteners, the builder
  \<^verbatim>\<open>parseCacheData\<close>, the loader \<^verbatim>\<open>loadCache\<close>, the query functions and the
  command handlers of \<^verbatim>\<open>main\<close>.

  Conventions of the model.
  \<^item> A JavaScript string is a \<open>string\<close>; a \<open>char\<close> stands for the UTF-16 code unit
    of the same number, so the model covers the strings over U+0000 .. U+00FF.
    Whitespace and lower-casing are those of ECMAScript on that range.
  \<^item> A parsed JSON value is a \<open>json\<close>; the property list of \<open>JObj\<close> is the list that
    \<^verbatim>\<open>Object.entries\<close> yields for the parsed object (own keys, enumeration order).
  \<^item> A thrown exception is \<open>Inl e\<close> of a result \<open>error + 'a\<close>.
  \<^item> \<^verbatim>\<open>new Date()\<close> reads a clock: the k-th read of a run returns \<open>clock k\<close>.
    A \<^verbatim>\<open>Date\<close> is its time value, milliseconds since the epoch, an \<open>int\<close>.
  \<^item> A plain object used as a dictionary (\<^verbatim>\<open>{}\<close>) inherits from
    \<^verbatim>\<open>Object.prototype\<close>: a read with a computed key that finds no own property
    finds the inherited member, and an assignment to the key \<^verbatim>\<open>__proto__\<close>
    replaces the prototype instead of creating a property.
\<close>

subsection \<open>Strings\<close>

definition is_space :: "char \<Rightarrow> bool" where
  \<comment> \<open>WhiteSpace and LineTerminator code units below U+0100: TAB, LF, VT, FF, CR, SP, NBSP\<close>
  "is_space c \<longleftrightarrow> c \<in> set [CHR 0x09, CHR 0x0A, CHR 0x0B, CHR 0x0C, CHR 0x0D, CHR 0x20, CHR 0xA0]"

definition trim :: "string \<Rightarrow> string" where
  "trim s = rev (dropWhile is_space (rev (dropWhile is_space s)))"

definition blank :: "string \<Rightarrow> bool" where
  \<comment> \<open>\<^verbatim>\<open>!s.trim()\<close>: the trimmed string is empty\<close>
  "blank s \<longleftrightarrow> trim s = []"

definition lower_char :: "char \<Rightarrow> char" where
  "lower_char c =
     (let n = (of_char c :: nat)
      in if (65 \<le> n \<and> n \<le> 90) \<or> (192 \<le> n \<and> n \<le> 222 \<and> n \<noteq> 215)
         then char_of (n + 32) else c)"

definition toLowerCase :: "string \<Rightarrow> string" where
  "toLowerCase s = map lower_char s"

fun includes_str :: "string \<Rightarrow> string \<Rightarrow> bool" where
  "includes_str [] q = (q = [])"
| "includes_str (c # s) q = (prefix q (c # s) \<or> includes_str s q)"

fun join :: "string \<Rightarrow> string list \<Rightarrow> string" where
  "join sep [] = []"
| "join sep [x] = x"
| "join sep (x # y # ys) = x @ sep @ join sep (y # ys)"

definition digit_char :: "nat \<Rightarrow> char" where
  "digit_char d = char_of (48 + d)"

fun digits :: "nat \<Rightarrow> nat \<Rightarrow> string" where
  \<comment> \<open>the decimal digits of \<open>n\<close>, most significant first; the first argument bounds their number\<close>
  "digits 0 n = []"
| "digits (Suc f) n = (if n < 10 then [digit_char n] else digits f (n div 10) @ [digit_char (n mod 10)])"

definition show_nat :: "nat \<Rightarrow> string" where
  \<comment> \<open>\<^verbatim>\<open>String(n)\<close> for a non-negative integer\<close>
  "show_nat n = digits (Suc n) n"

definition show_int :: "int \<Rightarrow> string" where
  "show_int i = (if i < 0 then CHR ''-'' # show_nat (nat (- i)) else show_nat (nat i))"

definition is_digit :: "char \<Rightarrow> bool" where
  "is_digit c \<longleftrightarrow> 48 \<le> (of_char c :: nat) \<and> (of_char c :: nat) \<le> 57"

definition digit_val :: "char \<Rightarrow> nat" where
  "digit_val c = (of_char c :: nat) - 48"

definition read_nat :: "string \<Rightarrow> nat" where
  "read_nat s = foldl (\<lambda>acc c. 10 * acc + digit_val c) 0 s"

definition array_index :: "string \<Rightarrow> nat option" where
  \<comment> \<open>an array index: a canonical numeric string of an integer in 0 .. 2^32 - 2;
      own keys of this kind are enumerated first, in ascending numeric order\<close>
  "array_index k =
     (if k \<noteq> [] \<and> list_all is_digit k \<and> (hd k \<noteq> CHR ''0'' \<or> length k = 1) \<and> read_nat k < 4294967295
      then Some (read_nat k) else None)"

subsection \<open>Parsed JSON\<close>

datatype json =
    JNull
  | JBool bool
  | JNum rat
  | JStr string
  | JArr "json list"
  | JObj "(string \<times> json) list"

fun is_object :: "json \<Rightarrow> bool" where
  \<comment> \<open>\<^verbatim>\<open>v && typeof v === "object"\<close>: an object or an array, not null\<close>
  "is_object (JArr xs) = True"
| "is_object (JObj kvs) = True"
| "is_object _ = False"

fun field :: "json \<Rightarrow> string \<Rightarrow> json option" where
  \<comment> \<open>\<^verbatim>\<open>v.name\<close> for the literal names the script reads (\<^verbatim>\<open>documents\<close>,
      \<^verbatim>\<open>content\<close>, \<^verbatim>\<open>text\<close>, ...): none of them is a member of
      \<^verbatim>\<open>Object.prototype\<close> or \<^verbatim>\<open>Array.prototype\<close>, so a value without
      the own property reads \<^verbatim>\<open>undefined\<close> (\<open>None\<close>)\<close>
  "field (JObj kvs) name = map_of kvs name"
| "field _ name = None"

fun entries :: "json \<Rightarrow> (string \<times> json) list" where
  \<comment> \<open>\<^verbatim>\<open>Object.entries(v)\<close> of an object or an array\<close>
  "entries (JObj kvs) = kvs"
| "entries (JArr xs) = zip (map show_nat [0..<length xs]) xs"
| "entries _ = []"

definition record_of :: "json \<Rightarrow> string \<Rightarrow> json" where
  \<comment> \<open>\<^verbatim>\<open>raw.name && typeof raw.name === "object" ? raw.name : {}\<close>\<close>
  "record_of raw name =
     (case field raw name of Some v \<Rightarrow> (if is_object v then v else JObj []) | None \<Rightarrow> JObj [])"

fun panel_get :: "json \<Rightarrow> string \<Rightarrow> json option" where
  \<comment> \<open>\<^verbatim>\<open>documentPanels[docId]\<close>, a read with a computed key: the own property or the
      array element. A key that is not own reads \<^verbatim>\<open>undefined\<close> or an inherited
      member (a function, \<^verbatim>\<open>length\<close>, the empty prototype object); the one consumer,
      \<^verbatim>\<open>extractDocumentPanelContent\<close>, returns the empty string on every one of
      these, so they are all \<open>None\<close> here\<close>
  "panel_get (JObj kvs) k = map_of kvs k"
| "panel_get (JArr xs) k =
     (case array_index k of Some i \<Rightarrow> (if i < length xs then Some (xs ! i) else None) | None \<Rightarrow> None)"
| "panel_get _ k = None"

subsection \<open>Rich-text flatteners\<close>

function extract_nodes :: "json \<Rightarrow> string list" where
  \<comment> \<open>the inner function \<^verbatim>\<open>extract\<close> of \<^verbatim>\<open>extractStructuredNotes\<close>; the list
      it returns is the array \<^verbatim>\<open>out\<close>\<close>
  "extract_nodes (JArr items) =
     concat (map (\<lambda>item.
       if \<not> is_object item then []
       else if field item ''type'' = Some (JStr ''paragraph'')
               \<and> (case field item ''content'' of Some (JArr c) \<Rightarrow> True | _ \<Rightarrow> False)
            then (case field item ''content'' of Some c \<Rightarrow> [join '' '' (extract_nodes c)] | None \<Rightarrow> [])
       else if field item ''type'' = Some (JStr ''text'')
               \<and> (case field item ''text'' of Some (JStr t) \<Rightarrow> True | _ \<Rightarrow> False)
            then (case field item ''text'' of Some (JStr t) \<Rightarrow> [t] | _ \<Rightarrow> [])
       else (case field item ''content'' of Some (JArr c) \<Rightarrow> [join '' '' (extract_nodes (JArr c))] | _ \<Rightarrow> []))
     items)"
| "extract_nodes JNull = []"
| "extract_nodes (JBool b) = []"
| "extract_nodes (JNum n) = []"
| "extract_nodes (JStr s) = []"
| "extract_nodes (JObj kvs) = []"
  by pat_completeness auto
termination
proof (relation "measure size")
  have look: "map_of kvs k = Some v \<Longrightarrow> size v < Suc (size_list (size_prod (\<lambda>_. 0) size) kvs)"
    for kvs :: "(string \<times> json) list" and k v
    by (induction kvs) (auto split: if_splits)
  have mem: "x \<in> set xs \<Longrightarrow> size x < Suc (size_list size xs)" for x :: json and xs
    by (induction xs) auto
  have sub: "item \<in> set items \<Longrightarrow> field item ''content'' = Some c \<Longrightarrow> size c < size (JArr items)"
    for item items c
  proof (cases item)
    case (JObj kvs)
    assume "item \<in> set items" and "field item ''content'' = Some c"
    with JObj have "size c < Suc (size_list (size_prod (\<lambda>_. 0) size) kvs)"
      and "size (JObj kvs) < Suc (size_list size items)"
      using look [of kvs "''content''" c] mem [of "JObj kvs" items] by simp_all
    then show ?thesis by simp
  qed simp_all
  show "wf (measure size)" by simp
  show "(c, JArr items) \<in> measure size"
    if "item \<in> set items" and "field item ''content'' = Some c" for items item c
    using sub that by simp
  show "(JArr c, JArr items) \<in> measure size"
    if "item \<in> set items" and "field item ''content'' = Some x2" and "x2 = JArr c" for items item x2 c
    using sub [of item items "JArr c"] that by simp
qed

definition extractStructuredNotes :: "json \<Rightarrow> string" where
  "extractStructuredNotes notesData =
     (if \<not> is_object notesData then []
      else case field notesData ''content'' of
             Some (JArr c) \<Rightarrow> trim (join '' '' (extract_nodes (JArr c)))
           | _ \<Rightarrow> [])"

function walk :: "json \<Rightarrow> string list" where
  \<comment> \<open>the inner function \<^verbatim>\<open>walk\<close> of \<^verbatim>\<open>extractDocumentPanelContent\<close>; the list it
      returns is what the call appends to \<^verbatim>\<open>textParts\<close>\<close>
  "walk (JArr items) = concat (map walk items)"
| "walk (JObj kvs) =
     (if map_of kvs ''type'' = Some (JStr ''text'')
      then (case map_of kvs ''text'' of Some (JStr t) \<Rightarrow> (if blank t then [] else [trim t]) | _ \<Rightarrow> [])
      else [])
     @ (case map_of kvs ''content'' of Some c \<Rightarrow> walk c | None \<Rightarrow> [])"
| "walk JNull = []"
| "walk (JBool b) = []"
| "walk (JNum n) = []"
| "walk (JStr s) = []"
  by pat_completeness auto
termination
proof (relation "measure size")
  have look: "map_of kvs k = Some v \<Longrightarrow> size v < Suc (size_list (size_prod (\<lambda>_. 0) size) kvs)"
    for kvs :: "(string \<times> json) list" and k v
    by (induction kvs) (auto split: if_splits)
  have mem: "x \<in> set xs \<Longrightarrow> size x < Suc (size_list size xs)" for x :: json and xs
    by (induction xs) auto
  show "wf (measure size)" by simp
  show "(item, JArr items) \<in> measure size" if "item \<in> set items" for items item
    using mem [OF that] by simp
  show "(c, JObj kvs) \<in> measure size" if "map_of kvs ''content'' = Some c" for kvs c
    using look [OF that] by simp
qed

definition blank_line :: string where
  \<comment> \<open>the separator \<^verbatim>\<open>"\n\n"\<close>\<close>
  "blank_line = [CHR 0x0A, CHR 0x0A]"

fun extractDocumentPanelContent :: "json option \<Rightarrow> string" where
  \<comment> \<open>\<open>None\<close> is \<^verbatim>\<open>undefined\<close>; \<^verbatim>\<open>Object.keys(panels).sort()\<close> orders the keys by
      code unit\<close>
  "extractDocumentPanelContent (Some (JArr panels)) = trim (join blank_line (concat (map walk panels)))"
| "extractDocumentPanelContent (Some (JObj panels)) =
     trim (join blank_line (concat (map (\<lambda>panelId.
       case map_of panels panelId of
         Some panel \<Rightarrow>
           (if is_object panel
            then (case field panel ''content'' of Some c \<Rightarrow> walk c | None \<Rightarrow> [])
            else [])
       | None \<Rightarrow> [])
       (sort (map fst panels)))))"
| "extractDocumentPanelContent _ = []"

subsection \<open>The normalized model\<close>

datatype error =
    TypeError          \<comment> \<open>a property read on \<^verbatim>\<open>undefined\<close> or \<^verbatim>\<open>null\<close>\<close>
  | SyntaxError        \<comment> \<open>\<^verbatim>\<open>JSON.parse\<close> of malformed text\<close>
  | IOError            \<comment> \<open>\<^verbatim>\<open>readFileSync\<close> of a path that cannot be read\<close>
  | Error string       \<comment> \<open>\<^verbatim>\<open>throw new Error(message)\<close>\<close>
  | IllTyped           \<comment> \<open>no exception of the script: the point where it would store a value
                           that is not of the declared type; \<open>parseCacheData\<close> never reaches it\<close>

record MeetingMetadata =
  m_id :: string
  m_title :: string
  m_date :: int
  m_duration :: "rat option"
  m_participants :: "string list"
  m_meetingType :: "string option"
  m_platform :: "string option"

record MeetingDocument =
  d_id :: string
  d_meetingId :: string
  d_title :: string
  d_content :: string
  d_documentType :: string
  d_createdAt :: int
  d_tags :: "string list"

record MeetingTranscript =
  t_meetingId :: string
  t_content :: string
  t_speakers :: "string list"
  t_language :: "string option"
  t_confidence :: "rat option"

record 'a dict =
  \<comment> \<open>a plain object used as a dictionary (\<^verbatim>\<open>Record<string, T>\<close>, created as \<^verbatim>\<open>{}\<close>):
      its own properties in enumeration order, and the object an assignment to
      \<^verbatim>\<open>__proto__\<close> has made its prototype (\<open>None\<close>: still \<^verbatim>\<open>Object.prototype\<close>)\<close>
  own :: "(string \<times> 'a) list"
  proto :: "'a option"

definition empty_dict :: "'a dict" where
  "empty_dict = \<lparr>own = [], proto = None\<rparr>"

record CacheData =
  meetings :: "MeetingMetadata dict"
  documents :: "MeetingDocument dict"
  transcripts :: "MeetingTranscript dict"
  lastUpdated :: "int option"

definition object_prototype_members :: "string list" where
  \<comment> \<open>the function-valued members of \<^verbatim>\<open>Object.prototype\<close>\<close>
  "object_prototype_members =
     [''constructor'', ''hasOwnProperty'', ''isPrototypeOf'', ''propertyIsEnumerable'',
      ''toLocaleString'', ''toString'', ''valueOf'',
      ''__defineGetter__'', ''__defineSetter__'', ''__lookupGetter__'', ''__lookupSetter__'']"

fun insert_index :: "nat \<Rightarrow> string \<Rightarrow> 'a \<Rightarrow> (string \<times> 'a) list \<Rightarrow> (string \<times> 'a) list" where
  \<comment> \<open>a new array-index key goes among the array-index keys, in numeric order\<close>
  "insert_index i k v [] = [(k, v)]"
| "insert_index i k v ((k', v') # rest) =
     (case array_index k' of
        Some j \<Rightarrow> (if j < i then (k', v') # insert_index i k v rest else (k, v) # (k', v') # rest)
      | None \<Rightarrow> (k, v) # (k', v') # rest)"

definition set_own :: "string \<Rightarrow> 'a \<Rightarrow> (string \<times> 'a) list \<Rightarrow> (string \<times> 'a) list" where
  \<comment> \<open>\<^verbatim>\<open>obj[k] = v\<close> on the own properties: an existing key keeps its place, a new
      array-index key is placed by number, any other new key goes last\<close>
  "set_own k v kvs =
     (if k \<in> fst ` set kvs then map (\<lambda>(k', v'). if k' = k then (k', v) else (k', v')) kvs
      else case array_index k of
             Some i \<Rightarrow> insert_index i k v kvs
           | None \<Rightarrow> kvs @ [(k, v)])"

definition dict_set :: "string \<Rightarrow> 'a \<Rightarrow> 'a dict \<Rightarrow> 'a dict" where
  \<comment> \<open>\<^verbatim>\<open>obj[k] = v\<close> for an object value \<open>v\<close>\<close>
  "dict_set k v d =
     (if k = ''__proto__'' then d\<lparr>proto := Some v\<rparr> else d\<lparr>own := set_own k v (own d)\<rparr>)"

datatype 'a slot =
    Found 'a     \<comment> \<open>a record of the dictionary's value type\<close>
  | Junk         \<comment> \<open>a truthy value that is not such a record: an inherited function,
                     \<^verbatim>\<open>Object.prototype\<close> itself, a field of the prototype record\<close>
  | Absent       \<comment> \<open>a falsy value: \<^verbatim>\<open>undefined\<close> or an empty string\<close>

definition dict_get :: "('a \<Rightarrow> string \<Rightarrow> bool option) \<Rightarrow> 'a dict \<Rightarrow> string \<Rightarrow> 'a slot" where
  \<comment> \<open>\<^verbatim>\<open>obj[k]\<close> with a computed key: own property, then the prototype chain.
      \<open>props p k\<close> is \<open>Some b\<close> when the record \<open>p\<close> has a property \<open>k\<close>, \<open>b\<close> its truthiness\<close>
  "dict_get props d k =
     (case map_of (own d) k of
        Some v \<Rightarrow> Found v
      | None \<Rightarrow>
          if k = ''__proto__'' then (case proto d of Some p \<Rightarrow> Found p | None \<Rightarrow> Junk)
          else (case (case proto d of Some p \<Rightarrow> props p k | None \<Rightarrow> None) of
                  Some truthy \<Rightarrow> (if truthy then Junk else Absent)
                | None \<Rightarrow> (if k \<in> set object_prototype_members then Junk else Absent)))"

definition meeting_props :: "MeetingMetadata \<Rightarrow> string \<Rightarrow> bool option" where
  "meeting_props m k =
     (if k = ''id'' then Some (m_id m \<noteq> [])
      else if k = ''title'' then Some (m_title m \<noteq> [])
      else if k = ''date'' then Some True
      else if k = ''duration'' then Some (case m_duration m of Some n \<Rightarrow> n \<noteq> 0 | None \<Rightarrow> False)
      else if k = ''participants'' then Some True
      else if k = ''meetingType'' then Some (case m_meetingType m of Some t \<Rightarrow> t \<noteq> [] | None \<Rightarrow> False)
      else if k = ''platform'' then Some (case m_platform m of Some t \<Rightarrow> t \<noteq> [] | None \<Rightarrow> False)
      else None)"

definition transcript_props :: "MeetingTranscript \<Rightarrow> string \<Rightarrow> bool option" where
  "transcript_props t k =
     (if k = ''meetingId'' then Some (t_meetingId t \<noteq> [])
      else if k = ''content'' then Some (t_content t \<noteq> [])
      else if k = ''speakers'' then Some True
      else if k = ''language'' then Some (case t_language t of Some l \<Rightarrow> l \<noteq> [] | None \<Rightarrow> False)
      else if k = ''confidence'' then Some (case t_confidence t of Some c \<Rightarrow> c \<noteq> 0 | None \<Rightarrow> False)
      else None)"

subsection \<open>The environment of a run\<close>

datatype fs_entry =
    File string     \<comment> \<open>a readable file and its text\<close>
  | Unreadable      \<comment> \<open>a path that exists and cannot be read as a file\<close>

record env =
  clock :: "nat \<Rightarrow> int"                   \<comment> \<open>the k-th \<^verbatim>\<open>new Date()\<close> of the run\<close>
  date_parse :: "string \<Rightarrow> int option"     \<comment> \<open>\<^verbatim>\<open>new Date(s).getTime()\<close>, \<open>None\<close> for NaN\<close>
  json_parse :: "string \<Rightarrow> json option"    \<comment> \<open>\<^verbatim>\<open>JSON.parse\<close>, \<open>None\<close> when it throws\<close>
  homedir :: string
  path_join :: "string \<Rightarrow> string \<Rightarrow> string"
  files :: "string \<Rightarrow> fs_entry option"     \<comment> \<open>\<open>None\<close>: \<^verbatim>\<open>existsSync\<close> is false\<close>

definition parseIsoDate :: "env \<Rightarrow> string \<Rightarrow> error + int" where
  "parseIsoDate e v =
     (case date_parse e v of None \<Rightarrow> Inl (Error (''Invalid date: '' @ v)) | Some t \<Rightarrow> Inr t)"

definition parseRangeDate :: "env \<Rightarrow> string \<Rightarrow> error + int" where
  "parseRangeDate e v =
     (case date_parse e v of None \<Rightarrow> Inl (Error (''Invalid date value: '' @ v)) | Some t \<Rightarrow> Inr t)"

definition replace_final_Z :: "string \<Rightarrow> string" where
  \<comment> \<open>\<^verbatim>\<open>s.replace(/Z$/, "+00:00")\<close>\<close>
  "replace_final_Z s = (if s \<noteq> [] \<and> last s = CHR ''Z'' then butlast s @ ''+00:00'' else s)"

subsection \<open>parseCacheData\<close>

definition nonblank_field :: "json \<Rightarrow> string \<Rightarrow> string option" where
  \<comment> \<open>\<^verbatim>\<open>typeof d.name === "string" && d.name.trim()\<close>, with the string\<close>
  "nonblank_field d name =
     (case field d name of Some (JStr s) \<Rightarrow> (if blank s then None else Some s) | _ \<Rightarrow> None)"

definition person_name :: "json \<Rightarrow> string" where
  "person_name person =
     (if \<not> is_object person then []
      else case field person ''name'' of Some (JStr n) \<Rightarrow> n | _ \<Rightarrow> [])"

definition build_meeting :: "env \<Rightarrow> nat \<Rightarrow> string \<Rightarrow> json \<Rightarrow> MeetingMetadata" where
  \<comment> \<open>the body of the first loop; \<open>n\<close> counts the clock reads made before it\<close>
  "build_meeting e n meetingId meetingData =
     (let people = (case field meetingData ''people'' of Some (JArr ps) \<Rightarrow> ps | _ \<Rightarrow> []);
          participants = filter (\<lambda>name. \<not> blank name) (map person_name people);
          now = clock e n;
          meetingDate =
            (case nonblank_field meetingData ''created_at'' of
               Some created \<Rightarrow>
                 (case parseIsoDate e (replace_final_Z created) of Inr t \<Rightarrow> t | Inl err \<Rightarrow> now)
             | None \<Rightarrow> now)
      in \<lparr>m_id = meetingId,
          m_title = (case nonblank_field meetingData ''title'' of Some t \<Rightarrow> t | None \<Rightarrow> ''Untitled Meeting''),
          m_date = meetingDate,
          m_duration = None,
          m_participants = participants,
          m_meetingType = Some (case field meetingData ''type'' of Some (JStr t) \<Rightarrow> t | _ \<Rightarrow> ''meeting''),
          m_platform = None\<rparr>)"

fun meetings_loop :: "env \<Rightarrow> (string \<times> json) list \<Rightarrow> CacheData \<Rightarrow> nat \<Rightarrow> CacheData \<times> nat" where
  "meetings_loop e [] c n = (c, n)"
| "meetings_loop e ((meetingId, meetingRaw) # rest) c n =
     (if \<not> is_object meetingRaw then meetings_loop e rest c n
      else meetings_loop e rest
             (c\<lparr>meetings := dict_set meetingId (build_meeting e n meetingId meetingRaw) (meetings c)\<rparr>)
             (Suc n))"

definition add_speaker :: "string \<Rightarrow> string list \<Rightarrow> string list" where
  \<comment> \<open>\<^verbatim>\<open>speakers.add(s)\<close> on a \<^verbatim>\<open>Set\<close>, kept in insertion order\<close>
  "add_speaker s speakers = (if s \<in> set speakers then speakers else speakers @ [s])"

definition segment_texts :: "json list \<Rightarrow> string list" where
  "segment_texts segs =
     concat (map (\<lambda>seg. if \<not> is_object seg then []
                         else case nonblank_field seg ''text'' of Some t \<Rightarrow> [trim t] | None \<Rightarrow> []) segs)"

definition segment_sources :: "json list \<Rightarrow> string list" where
  "segment_sources segs =
     concat (map (\<lambda>seg. if \<not> is_object seg then []
                         else case nonblank_field seg ''source'' of Some t \<Rightarrow> [trim t] | None \<Rightarrow> []) segs)"

definition content_candidate :: "json \<Rightarrow> string option" where
  \<comment> \<open>\<^verbatim>\<open>["content", "text", "transcript"].map(k => d[k]).find(...)\<close>\<close>
  "content_candidate d =
     (case nonblank_field d ''content'' of
        Some s \<Rightarrow> Some s
      | None \<Rightarrow> (case nonblank_field d ''text'' of
                    Some s \<Rightarrow> Some s
                  | None \<Rightarrow> nonblank_field d ''transcript''))"

definition listed_speakers :: "json \<Rightarrow> string list" where
  "listed_speakers d =
     (case field d ''speakers'' of
        Some (JArr sp) \<Rightarrow>
          concat (map (\<lambda>speaker. case speaker of JStr s \<Rightarrow> (if blank s then [] else [trim s]) | _ \<Rightarrow> []) sp)
      | _ \<Rightarrow> [])"

fun transcript_parts :: "json \<Rightarrow> string list" where
  \<comment> \<open>\<^verbatim>\<open>contentParts\<close> of the second loop\<close>
  "transcript_parts (JArr segs) = segment_texts segs"
| "transcript_parts (JObj kvs) = (case content_candidate (JObj kvs) of Some s \<Rightarrow> [s] | None \<Rightarrow> [])"
| "transcript_parts _ = []"

fun transcript_speakers :: "json \<Rightarrow> string list" where
  \<comment> \<open>\<^verbatim>\<open>Array.from(speakers)\<close> of the second loop\<close>
  "transcript_speakers (JArr segs) = fold add_speaker (segment_sources segs) []"
| "transcript_speakers (JObj kvs) = fold add_speaker (listed_speakers (JObj kvs)) []"
| "transcript_speakers _ = []"

definition build_transcript :: "string \<Rightarrow> json \<Rightarrow> MeetingTranscript" where
  "build_transcript transcriptId transcriptRaw =
     \<lparr>t_meetingId = transcriptId,
      t_content = trim (join '' '' (transcript_parts transcriptRaw)),
      t_speakers = transcript_speakers transcriptRaw,
      t_language = None,
      t_confidence = None\<rparr>"

fun transcripts_loop :: "(string \<times> json) list \<Rightarrow> CacheData \<Rightarrow> CacheData" where
  "transcripts_loop [] c = c"
| "transcripts_loop ((transcriptId, transcriptRaw) # rest) c =
     (if transcript_parts transcriptRaw \<noteq> []
      then transcripts_loop rest
             (c\<lparr>transcripts := dict_set transcriptId (build_transcript transcriptId transcriptRaw) (transcripts c)\<rparr>)
      else transcripts_loop rest c)"

definition notes_parts :: "json \<Rightarrow> string list" where
  \<comment> \<open>\<^verbatim>\<open>contentParts\<close> after the if / else-if chain over the notes fields\<close>
  "notes_parts docData =
     (case nonblank_field docData ''notes_plain'' of
        Some plain \<Rightarrow> [plain]
      | None \<Rightarrow>
          (case nonblank_field docData ''notes_markdown'' of
             Some markdown \<Rightarrow> [markdown]
           | None \<Rightarrow>
               (case field docData ''notes'' of
                  Some notes \<Rightarrow>
                    (if is_object notes
                     then (let structured = extractStructuredNotes notes
                           in if structured \<noteq> [] then [structured] else [])
                     else [])
                | None \<Rightarrow> [])))"

definition content_parts :: "bool \<Rightarrow> json \<Rightarrow> string \<Rightarrow> json \<Rightarrow> string list" where
  \<comment> \<open>\<^verbatim>\<open>contentParts\<close> at the end of the body of the third loop\<close>
  "content_parts parsePanels documentPanels docId docData =
     (let parts = notes_parts docData;
          hasContent = list_ex (\<lambda>item. \<not> blank item) parts;
          parts = (if parsePanels \<and> \<not> hasContent
                   then (let panelText = extractDocumentPanelContent (panel_get documentPanels docId)
                         in if panelText \<noteq> [] then parts @ [panelText] else parts)
                   else parts);
          parts = (case nonblank_field docData ''overview'' of
                     Some overview \<Rightarrow> parts @ [''Overview: '' @ overview] | None \<Rightarrow> parts);
          parts = (case nonblank_field docData ''summary'' of
                     Some summary \<Rightarrow> parts @ [''Summary: '' @ summary] | None \<Rightarrow> parts)
      in parts)"

definition build_document :: "MeetingMetadata \<Rightarrow> string \<Rightarrow> string list \<Rightarrow> MeetingDocument" where
  "build_document meeting docId contentParts =
     \<lparr>d_id = docId,
      d_meetingId = docId,
      d_title = m_title meeting,
      d_content = trim (join blank_line contentParts),
      d_documentType = ''meeting_notes'',
      d_createdAt = m_date meeting,
      d_tags = []\<rparr>"

fun documents_loop :: "bool \<Rightarrow> json \<Rightarrow> (string \<times> json) list \<Rightarrow> CacheData \<Rightarrow> error + CacheData" where
  "documents_loop parsePanels documentPanels [] c = Inr c"
| "documents_loop parsePanels documentPanels ((docId, docRaw) # rest) c =
     (if \<not> is_object docRaw then documents_loop parsePanels documentPanels rest c
      else case dict_get meeting_props (meetings c) docId of
             Absent \<Rightarrow> documents_loop parsePanels documentPanels rest c
           | Junk \<Rightarrow> Inl IllTyped
           | Found meeting \<Rightarrow>
               documents_loop parsePanels documentPanels rest
                 (c\<lparr>documents :=
                      dict_set docId
                        (build_document meeting docId (content_parts parsePanels documentPanels docId docRaw))
                        (documents c)\<rparr>))"

definition empty_cache :: CacheData where
  "empty_cache = \<lparr>meetings = empty_dict, documents = empty_dict, transcripts = empty_dict, lastUpdated = None\<rparr>"

definition parseCacheData :: "env \<Rightarrow> json \<Rightarrow> bool \<Rightarrow> error + CacheData" where
  \<comment> \<open>\<^verbatim>\<open>rawData.documents\<close> on \<^verbatim>\<open>null\<close> throws; every other JSON value can be read\<close>
  "parseCacheData e rawData parsePanels =
     (if rawData = JNull then Inl TypeError
      else
        let rawDocuments = record_of rawData ''documents'';
            (c1, n) = meetings_loop e (entries rawDocuments) empty_cache 0;
            c2 = transcripts_loop (entries (record_of rawData ''transcripts'')) c1;
            documentPanels = record_of rawData ''documentPanels''
        in case documents_loop parsePanels documentPanels (entries rawDocuments) c2 of
             Inl err \<Rightarrow> Inl err
           | Inr c3 \<Rightarrow> Inr (c3\<lparr>lastUpdated := Some (clock e n)\<rparr>))"

subsection \<open>loadCache\<close>

definition expandHome :: "env \<Rightarrow> string \<Rightarrow> string" where
  "expandHome e pathValue =
     (if pathValue = ''~'' then homedir e
      else if prefix ''~/'' pathValue then path_join e (homedir e) (drop 2 pathValue)
      else pathValue)"

definition loadCache :: "env \<Rightarrow> string \<Rightarrow> bool \<Rightarrow> error + CacheData" where
  "loadCache e cachePathInput parsePanels =
     (case files e (expandHome e cachePathInput) of
        None \<Rightarrow> Inr (empty_cache\<lparr>lastUpdated := Some (clock e 0)\<rparr>)
      | Some Unreadable \<Rightarrow> Inl IOError
      | Some (File rawFile) \<Rightarrow>
          (case json_parse e rawFile of
             None \<Rightarrow> Inl SyntaxError
           | Some rawData \<Rightarrow>
               if rawData = JNull then Inl TypeError
               else (case field rawData ''cache'' of
                       Some (JStr cache) \<Rightarrow>
                         (case json_parse e cache of
                            None \<Rightarrow> Inl SyntaxError
                          | Some nested \<Rightarrow>
                              if nested = JNull then Inl TypeError
                              else parseCacheData e
                                     (case field nested ''state'' of
                                        Some st \<Rightarrow> (if is_object st then st else nested)
                                      | None \<Rightarrow> nested)
                                     parsePanels)
                     | _ \<Rightarrow> parseCacheData e rawData parsePanels)))"

subsection \<open>searchMeetings\<close>

datatype jsnum =
    NaN
  | NegInf
  | PosInf
  | Fin rat      \<comment> \<open>a finite number\<close>

fun slice_to :: "jsnum \<Rightarrow> 'a list \<Rightarrow> 'a list" where
  \<comment> \<open>\<^verbatim>\<open>xs.slice(0, Math.max(0, limit))\<close>: the end index is truncated to an integer, NaN
      counts as 0\<close>
  "slice_to NaN xs = []"
| "slice_to NegInf xs = []"
| "slice_to PosInf xs = xs"
| "slice_to (Fin r) xs = take (nat \<lfloor>max 0 r\<rfloor>) xs"

fun run_more :: "bool \<Rightarrow> ('a \<Rightarrow> 'a \<Rightarrow> int) \<Rightarrow> 'a \<Rightarrow> 'a list \<Rightarrow> nat" where
  \<comment> \<open>how many further elements continue the initial run: a strictly descending run
      goes on while the next element compares below the previous one, any other run
      while it does not\<close>
  "run_more descending cmp previous [] = 0"
| "run_more descending cmp previous (current # rest) =
     (let order = cmp current previous
      in if (if descending then order < 0 else order \<ge> 0)
         then Suc (run_more descending cmp current rest) else 0)"

function find_slot :: "('a \<Rightarrow> 'a \<Rightarrow> int) \<Rightarrow> 'a \<Rightarrow> 'a list \<Rightarrow> nat \<Rightarrow> nat \<Rightarrow> nat" where
  \<comment> \<open>the binary search of the insertion step, over the positions \<open>left ..< right\<close> of the
      sorted part \<open>work\<close>; it is called with \<open>right \<le> length work\<close>\<close>
  "find_slot cmp pivot work left right =
     (if left < right
      then (let mid = left + (right - left) div 2
            in if cmp pivot (work ! mid) < 0 then find_slot cmp pivot work left mid
               else find_slot cmp pivot work (mid + 1) right)
      else left)"
  by pat_completeness auto
termination
  by (relation "measure (\<lambda>(cmp, pivot, work, left, right). right - left)") auto

definition binary_insert :: "('a \<Rightarrow> 'a \<Rightarrow> int) \<Rightarrow> 'a \<Rightarrow> 'a list \<Rightarrow> 'a list" where
  "binary_insert cmp pivot work =
     (let left = find_slot cmp pivot work 0 (length work)
      in take left work @ pivot # drop left work)"

definition js_sort :: "('a \<Rightarrow> 'a \<Rightarrow> int) \<Rightarrow> 'a list \<Rightarrow> 'a list" where
  \<comment> \<open>\<^verbatim>\<open>xs.sort(cmp)\<close> as V8 sorts an array of fewer than 64 elements: the initial run is
      found (and reversed when strictly descending), the remaining elements are placed by
      binary insertion. \<open>cmp\<close> is the comparator with NaN read as 0. For a comparator that
      is a consistent ordering this is the stable sort that ECMAScript prescribes, for an
      array of any length; for 64 elements or more V8 merges runs, which the model does
      not follow\<close>
  "js_sort cmp xs =
     (case xs of
        [] \<Rightarrow> []
      | [x] \<Rightarrow> [x]
      | first # second # rest \<Rightarrow>
          (let descending = cmp second first < 0;
               k = run_more descending cmp second rest;
               run = first # second # take k rest;
               run = (if descending then rev run else run)
           in fold (binary_insert cmp) (drop k rest) run))"

definition meeting_score :: "CacheData \<Rightarrow> string \<Rightarrow> string \<Rightarrow> MeetingMetadata \<Rightarrow> error + nat" where
  \<comment> \<open>the body of the loop of \<^verbatim>\<open>searchMeetings\<close>, up to the final value of \<^verbatim>\<open>score\<close>;
      \<^verbatim>\<open>transcript.content.toLowerCase()\<close> throws when the value found under the id is
      not a transcript\<close>
  "meeting_score data queryLower meetingId meeting =
     (let score = (if includes_str (toLowerCase (m_title meeting)) queryLower then 2 else 0);
          score = fold (\<lambda>participant score.
                          if includes_str (toLowerCase participant) queryLower then score + 1 else score)
                       (m_participants meeting) score
      in case dict_get transcript_props (transcripts data) meetingId of
           Found transcript \<Rightarrow>
             Inr (if includes_str (toLowerCase (t_content transcript)) queryLower then score + 1 else score)
         | Junk \<Rightarrow> Inl TypeError
         | Absent \<Rightarrow> Inr score)"

fun search_loop ::
  "CacheData \<Rightarrow> string \<Rightarrow> (string \<times> MeetingMetadata) list \<Rightarrow> (nat \<times> MeetingMetadata) list
     \<Rightarrow> error + (nat \<times> MeetingMetadata) list" where
  "search_loop data queryLower [] scored = Inr scored"
| "search_loop data queryLower ((meetingId, meeting) # rest) scored =
     (case meeting_score data queryLower meetingId meeting of
        Inl err \<Rightarrow> Inl err
      | Inr score \<Rightarrow>
          search_loop data queryLower rest (if score > 0 then scored @ [(score, meeting)] else scored))"

definition searchMeetings :: "CacheData \<Rightarrow> string \<Rightarrow> jsnum \<Rightarrow> error + (nat \<times> MeetingMetadata) list" where
  "searchMeetings data query limit =
     (case search_loop data (toLowerCase query) (own (meetings data)) [] of
        Inl err \<Rightarrow> Inl err
      | Inr scored \<Rightarrow> Inr (slice_to limit (js_sort (\<lambda>a b. int (fst b) - int (fst a)) scored)))"

subsection \<open>Pattern analysis\<close>

datatype count =
    Num nat
  | Str string     \<comment> \<open>what \<^verbatim>\<open>+ 1\<close> makes of a value that is not a number\<close>

definition native_function_text :: "string \<Rightarrow> string" where
  \<comment> \<open>\<^verbatim>\<open>String(f)\<close> of a built-in function, as V8 prints it\<close>
  "native_function_text k =
     ''function '' @ (if k = ''constructor'' then ''Object'' else k) @ ''() { [native code] }''"

definition bump :: "string \<Rightarrow> (string \<times> count) list \<Rightarrow> (string \<times> count) list" where
  \<comment> \<open>\<^verbatim>\<open>counts[k] = (counts[k] || 0) + 1\<close> on \<^verbatim>\<open>counts = {}\<close>. A key without an own
      property reads the member inherited from \<^verbatim>\<open>Object.prototype\<close>; the assignment
      to \<^verbatim>\<open>__proto__\<close> of a string changes nothing\<close>
  "bump k counts =
     (case map_of counts k of
        Some (Num n) \<Rightarrow> set_own k (Num (if n = 0 then 1 else n + 1)) counts
      | Some (Str t) \<Rightarrow> set_own k (if t = [] then Num 1 else Str (t @ ''1'')) counts
      | None \<Rightarrow>
          if k = ''__proto__'' then counts
          else if k \<in> set object_prototype_members then set_own k (Str (native_function_text k @ ''1'')) counts
          else set_own k (Num 1) counts)"

definition count_cmp :: "string \<times> count \<Rightarrow> string \<times> count \<Rightarrow> int" where
  \<comment> \<open>\<^verbatim>\<open>(a, b) => b[1] - a[1]\<close>; a difference that is NaN counts as 0 in a sort. The strings
      that \<open>bump\<close> stores are no numerals\<close>
  "count_cmp a b = (case (snd a, snd b) of (Num x, Num y) \<Rightarrow> int y - int x | _ \<Rightarrow> 0)"

definition analyzeParticipantPatterns :: "MeetingMetadata list \<Rightarrow> nat \<times> (string \<times> count) list" where
  \<comment> \<open>\<open>(meetingCount, topParticipants)\<close>\<close>
  "analyzeParticipantPatterns ms =
     (length ms, js_sort count_cmp (fold (\<lambda>meeting counts. fold bump (m_participants meeting) counts) ms []))"

definition getUTCFullYear :: "int \<Rightarrow> int" where
  \<comment> \<open>the year of a time value in the proleptic Gregorian calendar, UTC\<close>
  "getUTCFullYear t =
     (let z = t div 86400000 + 719468;
          era = z div 146097;
          doe = z - era * 146097;
          yoe = (doe - doe div 1460 + doe div 36524 - doe div 146096) div 365;
          doy = doe - (365 * yoe + yoe div 4 - yoe div 100);
          mp = (5 * doy + 2) div 153
      in yoe + era * 400 + (if mp < 10 then 0 else 1))"

definition getUTCMonth :: "int \<Rightarrow> int" where
  \<comment> \<open>the month of a time value, 0 for January\<close>
  "getUTCMonth t =
     (let z = t div 86400000 + 719468;
          era = z div 146097;
          doe = z - era * 146097;
          yoe = (doe - doe div 1460 + doe div 36524 - doe div 146096) div 365;
          doy = doe - (365 * yoe + yoe div 4 - yoe div 100);
          mp = (5 * doy + 2) div 153
      in (if mp < 10 then mp + 2 else mp - 10))"

definition padStart2 :: "string \<Rightarrow> string" where
  \<comment> \<open>\<^verbatim>\<open>s.padStart(2, "0")\<close>\<close>
  "padStart2 s = replicate (2 - length s) CHR ''0'' @ s"

definition month_key :: "MeetingMetadata \<Rightarrow> string" where
  "month_key meeting =
     (let y = getUTCFullYear (m_date meeting);
          m = padStart2 (show_int (getUTCMonth (m_date meeting) + 1))
      in show_int y @ ''-'' @ m)"

record frequency_analysis =
  meetingCount :: nat
  byMonth :: "(string \<times> count) list"
  averagePerMonth :: rat

definition analyzeFrequencyPatterns :: "MeetingMetadata list \<Rightarrow> frequency_analysis" where
  \<comment> \<open>the quotient is the exact one; the script's is the double nearest to it\<close>
  "analyzeFrequencyPatterns ms =
     (let byMonth = fold (\<lambda>meeting byMonth. bump (month_key meeting) byMonth) ms [];
          monthCount = length byMonth
      in \<lparr>meetingCount = length ms,
          byMonth = byMonth,
          averagePerMonth = (if monthCount > 0 then of_nat (length ms) / of_nat monthCount else 0)\<rparr>)"

definition TOPIC_STOP_WORDS :: "string list" where
  "TOPIC_STOP_WORDS = [''meeting'', ''call'', ''sync'', ''with'']"

function split_ws :: "string \<Rightarrow> string list" where
  \<comment> \<open>\<^verbatim>\<open>s.split(/\s+/)\<close>\<close>
  "split_ws s =
     (let word = takeWhile (\<lambda>c. \<not> is_space c) s;
          rest = dropWhile (\<lambda>c. \<not> is_space c) s
      in if rest = [] then [word] else word # split_ws (dropWhile is_space rest))"
  by pat_completeness auto
termination
proof (relation "measure length")
  show "wf (measure length)" by simp
  show "(dropWhile is_space rest, s) \<in> measure length"
    if "rest = dropWhile (\<lambda>c. \<not> is_space c) s" and "rest \<noteq> []" for s rest
  proof -
    have "is_space (hd rest)"
      using that hd_dropWhile [of "\<lambda>c. \<not> is_space c" s] by simp
    then have "length (dropWhile is_space rest) < length rest"
      using that(2) by (cases rest) (auto simp: le_imp_less_Suc length_dropWhile_le)
    moreover have "length rest \<le> length s"
      using that(1) by (simp add: length_dropWhile_le)
    ultimately show ?thesis by simp
  qed
qed

definition topic_char :: "char \<Rightarrow> bool" where
  \<comment> \<open>the class \<^verbatim>\<open>[a-z0-9_-]\<close>\<close>
  "topic_char c \<longleftrightarrow>
     (let n = (of_char c :: nat) in (97 \<le> n \<and> n \<le> 122) \<or> (48 \<le> n \<and> n \<le> 57) \<or> n = 95 \<or> n = 45)"

definition title_words :: "MeetingMetadata \<Rightarrow> string list" where
  \<comment> \<open>the words of one title that reach the counting line\<close>
  "title_words meeting =
     filter (\<lambda>word. \<not> length word \<le> 3 \<and> word \<notin> set TOPIC_STOP_WORDS)
       (map (filter topic_char) (split_ws (toLowerCase (m_title meeting))))"

definition analyzeTopicPatterns :: "MeetingMetadata list \<Rightarrow> nat \<times> (string \<times> count) list" where
  \<comment> \<open>\<open>(meetingCount, topics)\<close>\<close>
  "analyzeTopicPatterns ms =
     (length ms, js_sort count_cmp (fold (\<lambda>meeting counts. fold bump (title_words meeting) counts) ms []))"

subsection \<open>The command handlers of main\<close>

text \<open>
  A handler returns the value the command reports, before it is rendered as text or as
  JSON; the rendering is not modelled. The arguments are the entries of \<^verbatim>\<open>argsMap\<close>
  (\<open>None\<close>: the option was not given); \<^verbatim>\<open>--limit\<close> is given as the number that
  \<^verbatim>\<open>Number\<close> makes of its text.
\<close>

datatype outcome =
    SearchResults "(nat \<times> MeetingMetadata) list"
  | NotFound string
  | Details MeetingMetadata nat bool
      \<comment> \<open>the meeting, the number of its documents, \<^verbatim>\<open>transcriptAvailable\<close>\<close>
  | Transcript string string "MeetingTranscript option"
      \<comment> \<open>\<^verbatim>\<open>meetingId\<close>, \<^verbatim>\<open>title\<close>, and the transcript; \<open>None\<close> when the value found is
          no transcript and every field read from it is \<^verbatim>\<open>undefined\<close>\<close>
  | Documents string "MeetingDocument list"
  | ParticipantAnalysis "nat \<times> (string \<times> count) list"
  | FrequencyAnalysis frequency_analysis
  | TopicAnalysis "nat \<times> (string \<times> count) list"

definition quoted :: "string \<Rightarrow> string" where
  "quoted s = [CHR 0x27] @ s @ [CHR 0x27]"

definition arg_or_empty :: "string option \<Rightarrow> string" where
  \<comment> \<open>\<^verbatim>\<open>argsMap[name] || ""\<close>\<close>
  "arg_or_empty a = (case a of Some v \<Rightarrow> v | None \<Rightarrow> [])"

definition search_meetings :: "CacheData \<Rightarrow> string option \<Rightarrow> jsnum option \<Rightarrow> error + outcome" where
  "search_meetings data query_arg limit_arg =
     (let query = arg_or_empty query_arg;
          limit = (case limit_arg of Some l \<Rightarrow> l | None \<Rightarrow> Fin 10)
      in if query = [] then Inl (Error ''--query is required'')
         else if limit = NaN \<or> limit = NegInf \<or> (case limit of Fin r \<Rightarrow> r \<le> 0 | _ \<Rightarrow> False)
         then Inl (Error ''--limit must be a positive number'')
         else case searchMeetings data query limit of
                Inl err \<Rightarrow> Inl err
              | Inr results \<Rightarrow> Inr (SearchResults results))"

definition title_or_id :: "CacheData \<Rightarrow> string \<Rightarrow> string" where
  \<comment> \<open>\<^verbatim>\<open>data.meetings[meetingId]?.title || meetingId\<close>\<close>
  "title_or_id data meetingId =
     (case dict_get meeting_props (meetings data) meetingId of
        Found meeting \<Rightarrow> (if m_title meeting \<noteq> [] then m_title meeting else meetingId)
      | _ \<Rightarrow> meetingId)"

definition documents_of :: "CacheData \<Rightarrow> string \<Rightarrow> MeetingDocument list" where
  \<comment> \<open>\<^verbatim>\<open>Object.values(data.documents).filter((doc) => doc.meetingId === meetingId)\<close>\<close>
  "documents_of data meetingId = filter (\<lambda>doc. d_meetingId doc = meetingId) (map snd (own (documents data)))"

definition get_meeting_details :: "CacheData \<Rightarrow> string option \<Rightarrow> error + outcome" where
  \<comment> \<open>\<^verbatim>\<open>meeting.date.toISOString()\<close> throws when the value found is not a meeting\<close>
  "get_meeting_details data id_arg =
     (let meetingId = arg_or_empty id_arg
      in if meetingId = [] then Inl (Error ''--meeting-id is required'')
         else case dict_get meeting_props (meetings data) meetingId of
                Absent \<Rightarrow> Inr (NotFound (''Meeting '' @ quoted meetingId @ '' not found''))
              | Junk \<Rightarrow> Inl TypeError
              | Found meeting \<Rightarrow>
                  Inr (Details meeting (length (documents_of data meetingId))
                         (case dict_get transcript_props (transcripts data) meetingId of
                            Absent \<Rightarrow> False | _ \<Rightarrow> True)))"

definition get_meeting_transcript :: "CacheData \<Rightarrow> bool \<Rightarrow> string option \<Rightarrow> error + outcome" where
  \<comment> \<open>without \<^verbatim>\<open>--json\<close>, \<^verbatim>\<open>transcript.speakers.length\<close> throws when the value found is
      not a transcript\<close>
  "get_meeting_transcript data jsonOutput id_arg =
     (let meetingId = arg_or_empty id_arg
      in if meetingId = [] then Inl (Error ''--meeting-id is required'')
         else case dict_get transcript_props (transcripts data) meetingId of
                Absent \<Rightarrow> Inr (NotFound (''No transcript available for meeting '' @ quoted meetingId))
              | Junk \<Rightarrow>
                  (if jsonOutput then Inr (Transcript meetingId (title_or_id data meetingId) None)
                   else Inl TypeError)
              | Found transcript \<Rightarrow>
                  Inr (Transcript meetingId (title_or_id data meetingId) (Some transcript)))"

definition get_meeting_documents :: "CacheData \<Rightarrow> string option \<Rightarrow> error + outcome" where
  "get_meeting_documents data id_arg =
     (let meetingId = arg_or_empty id_arg
      in if meetingId = [] then Inl (Error ''--meeting-id is required'')
         else if documents_of data meetingId = []
         then Inr (NotFound (''No documents found for meeting '' @ quoted meetingId))
         else Inr (Documents (title_or_id data meetingId) (documents_of data meetingId)))"

definition parseDateRange :: "env \<Rightarrow> string option \<Rightarrow> string option \<Rightarrow> error + (int \<times> int) option" where
  "parseDateRange e startDateRaw endDateRaw =
     (if arg_or_empty startDateRaw = [] \<and> arg_or_empty endDateRaw = [] then Inr None
      else case parseRangeDate e (if arg_or_empty startDateRaw = [] then ''1900-01-01'' else arg_or_empty startDateRaw) of
             Inl err \<Rightarrow> Inl err
           | Inr start \<Rightarrow>
               (case parseRangeDate e (if arg_or_empty endDateRaw = [] then ''2100-01-01'' else arg_or_empty endDateRaw) of
                  Inl err \<Rightarrow> Inl err
                | Inr stop \<Rightarrow> Inr (Some (start, stop))))"

definition analyze_meeting_patterns ::
  "env \<Rightarrow> CacheData \<Rightarrow> string option \<Rightarrow> string option \<Rightarrow> string option \<Rightarrow> error + outcome" where
  "analyze_meeting_patterns e data type_arg start_arg end_arg =
     (let patternTypeRaw = arg_or_empty type_arg
      in if patternTypeRaw = [] then Inl (Error ''--pattern-type is required'')
         else if patternTypeRaw \<notin> set [''participants'', ''frequency'', ''topics'']
         then Inl (Error ''--pattern-type must be one of: topics, participants, frequency'')
         else case parseDateRange e start_arg end_arg of
                Inl err \<Rightarrow> Inl err
              | Inr dateRange \<Rightarrow>
                  (let ms = filter (\<lambda>meeting. case dateRange of
                                                 None \<Rightarrow> True
                                               | Some (start, stop) \<Rightarrow> start \<le> m_date meeting \<and> m_date meeting \<le> stop)
                                   (map snd (own (meetings data)))
                   in if patternTypeRaw = ''participants'' then Inr (ParticipantAnalysis (analyzeParticipantPatterns ms))
                      else if patternTypeRaw = ''frequency'' then Inr (FrequencyAnalysis (analyzeFrequencyPatterns ms))
                      else Inr (TopicAnalysis (analyzeTopicPatterns ms))))"

datatype request =
    SearchMeetings "string option" "jsnum option"           \<comment> \<open>\<^verbatim>\<open>--query\<close>, \<^verbatim>\<open>--limit\<close>\<close>
  | GetMeetingDetails "string option"                       \<comment> \<open>\<^verbatim>\<open>--meeting-id\<close>\<close>
  | GetMeetingTranscript "string option"
  | GetMeetingDocuments "string option"
  | AnalyzeMeetingPatterns "string option" "string option" "string option"
      \<comment> \<open>\<^verbatim>\<open>--pattern-type\<close>, \<^verbatim>\<open>--start-date\<close>, \<^verbatim>\<open>--end-date\<close>\<close>

definition DEFAULT_CACHE_PATH :: string where
  "DEFAULT_CACHE_PATH = ''~/Library/Application Support/Granola/cache-v3.json''"

definition main :: "env \<Rightarrow> string option \<Rightarrow> bool \<Rightarrow> bool \<Rightarrow> request \<Rightarrow> error + outcome" where
  \<comment> \<open>\<^verbatim>\<open>main\<close> after the command line is read: the cache is loaded first, then the command
      checks its arguments and runs\<close>
  "main e cache_path_arg parsePanels jsonOutput req =
     (let cachePath = (if arg_or_empty cache_path_arg = [] then DEFAULT_CACHE_PATH else arg_or_empty cache_path_arg)
      in case loadCache e cachePath parsePanels of
           Inl err \<Rightarrow> Inl err
         | Inr data \<Rightarrow>
             (case req of
                SearchMeetings query limit \<Rightarrow> search_meetings data query limit
              | GetMeetingDetails meetingId \<Rightarrow> get_meeting_details data meetingId
              | GetMeetingTranscript meetingId \<Rightarrow> get_meeting_transcript data jsonOutput meetingId
              | GetMeetingDocuments meetingId \<Rightarrow> get_meeting_documents data meetingId
              | AnalyzeMeetingPatterns patternType startDate endDate \<Rightarrow>
                  analyze_meeting_patterns e data patternType startDate endDate))"

subsection \<open>A sample run\<close>

definition sample_env :: env where
  \<comment> \<open>a clock that starts at 1000, a date parser that knows one timestamp, no files\<close>
  "sample_env =
     \<lparr>clock = (\<lambda>k. 1000 + int k),
      date_parse = (\<lambda>s. if s = ''2024-01-15T10:00:00+00:00'' then Some 1705312800000 else None),
      json_parse = (\<lambda>s. None),
      homedir = ''/home/u'',
      path_join = (\<lambda>a b. a @ ''/'' @ b),
      files = (\<lambda>p. None)\<rparr>"

definition sample_raw :: json where
  "sample_raw =
     JObj [(''documents'',
            JObj [(''m1'', JObj [(''title'', JStr ''Q1 Planning''),
                                (''created_at'', JStr ''2024-01-15T10:00:00Z''),
                                (''people'', JArr [JObj [(''name'', JStr ''Ada'')], JObj [(''name'', JStr ''Bo'')]]),
                                (''notes_plain'', JStr ''Discussed roadmap.'')]),
                  (''m2'', JStr ''not a record'')]),
           (''transcripts'',
            JObj [(''m1'', JArr [JObj [(''text'', JStr '' Hello Ada ''), (''source'', JStr ''Bo'')]]),
                  (''m2'', JArr [JObj [(''text'', JStr ''  '')]])])]"

definition sample_meeting :: MeetingMetadata where
  "sample_meeting =
     \<lparr>m_id = ''m1'', m_title = ''Q1 Planning'', m_date = 1705312800000, m_duration = None,
      m_participants = [''Ada'', ''Bo''], m_meetingType = Some ''meeting'', m_platform = None\<rparr>"

definition sample_document :: MeetingDocument where
  "sample_document =
     \<lparr>d_id = ''m1'', d_meetingId = ''m1'', d_title = ''Q1 Planning'', d_content = ''Discussed roadmap.'',
      d_documentType = ''meeting_notes'', d_createdAt = 1705312800000, d_tags = []\<rparr>"

definition sample_transcript :: MeetingTranscript where
  "sample_transcript =
     \<lparr>t_meetingId = ''m1'', t_content = ''Hello Ada'', t_speakers = [''Bo''],
      t_language = None, t_confidence = None\<rparr>"

definition sample_cache :: CacheData where
  "sample_cache =
     \<lparr>meetings = \<lparr>own = [(''m1'', sample_meeting)], proto = None\<rparr>,
      documents = \<lparr>own = [(''m1'', sample_document)], proto = None\<rparr>,
      transcripts = \<lparr>own = [(''m1'', sample_transcript)], proto = None\<rparr>,
      lastUpdated = Some 1001\<rparr>"

definition titled :: "string \<Rightarrow> string \<Rightarrow> string list \<Rightarrow> MeetingMetadata" where
  "titled k title people =
     \<lparr>m_id = k, m_title = title, m_date = 0, m_duration = None, m_participants = people,
      m_meetingType = Some ''meeting'', m_platform = None\<rparr>"

definition three_meetings :: CacheData where
  \<comment> \<open>three meetings that match the query \<^verbatim>\<open>x\<close> with the scores 1, 2 and 3\<close>
  "three_meetings =
     empty_cache\<lparr>meetings :=
       \<lparr>own = [(''a'', titled ''a'' ''budget'' [''xavier'']),
               (''b'', titled ''b'' ''box'' []),
               (''c'', titled ''c'' ''taxes'' [''max''])],
        proto = None\<rparr>\<rparr>"

definition constructor_raw :: json where
  \<comment> \<open>one meeting record, stored under the id \<^verbatim>\<open>constructor\<close>\<close>
  "constructor_raw = JObj [(''documents'', JObj [(''constructor'', JObj [(''title'', JStr ''x'')])])]"

definition constructor_cache :: CacheData where
  "constructor_cache =
     \<lparr>meetings = \<lparr>own = [(''constructor'', (titled ''constructor'' ''x'' [])\<lparr>m_date := 1000\<rparr>)], proto = None\<rparr>,
      documents =
        \<lparr>own = [(''constructor'',
                 \<lparr>d_id = ''constructor'', d_meetingId = ''constructor'', d_title = ''x'', d_content = [],
                  d_documentType = ''meeting_notes'', d_createdAt = 1000, d_tags = []\<rparr>)],
         proto = None\<rparr>,
      transcripts = empty_dict,
      lastUpdated = Some 1001\<rparr>"

definition january_meetings :: "MeetingMetadata list" where
  \<comment> \<open>two meetings of January 2024: 2024-01-15T10:00:00Z and 2024-01-23T08:53:20Z\<close>
  "january_meetings =
     [(titled ''m1'' ''kickoff'' [])\<lparr>m_date := 1705312800000\<rparr>,
      (titled ''m2'' ''review'' [])\<lparr>m_date := 1706000000000\<rparr>]"

subsection \<open>The selection policy for the content of a document, as the specification words it\<close>

definition structured_text :: "json \<Rightarrow> string" where
  \<comment> \<open>structured-notes extraction over the notes tree of a record, empty without a tree\<close>
  "structured_text docData =
     (case field docData ''notes'' of
        Some notes \<Rightarrow> (if is_object notes then extractStructuredNotes notes else [])
      | None \<Rightarrow> [])"

definition chosen_text :: "bool \<Rightarrow> json \<Rightarrow> string \<Rightarrow> json \<Rightarrow> string option" where
  \<comment> \<open>strict priority, the first candidate with text wins: plain notes, markdown notes,
      structured notes, panels (only when enabled)\<close>
  "chosen_text parsePanels documentPanels docId docData =
     (case nonblank_field docData ''notes_plain'' of
        Some plain \<Rightarrow> Some plain
      | None \<Rightarrow>
          (case nonblank_field docData ''notes_markdown'' of
             Some markdown \<Rightarrow> Some markdown
           | None \<Rightarrow>
               if structured_text docData \<noteq> [] then Some (structured_text docData)
               else if parsePanels \<and> extractDocumentPanelContent (panel_get documentPanels docId) \<noteq> []
               then Some (extractDocumentPanelContent (panel_get documentPanels docId))
               else None))"

definition summary_lines :: "json \<Rightarrow> string list" where
  \<comment> \<open>the \<^verbatim>\<open>Overview:\<close> and \<^verbatim>\<open>Summary:\<close> lines of a record\<close>
  "summary_lines docData =
     (case nonblank_field docData ''overview'' of Some overview \<Rightarrow> [''Overview: '' @ overview] | None \<Rightarrow> [])
     @ (case nonblank_field docData ''summary'' of Some summary \<Rightarrow> [''Summary: '' @ summary] | None \<Rightarrow> [])"

definition blank_plain_raw :: json where
  \<comment> \<open>a record whose plain notes are one space\<close>
  "blank_plain_raw =
     JObj [(''documents'',
            JObj [(''m1'', JObj [(''notes_plain'', JStr '' ''), (''notes_markdown'', JStr ''abc'')])])]"

subsection \<open>Notions used in the proofs\<close>

definition has_key :: "'a dict \<Rightarrow> string \<Rightarrow> bool" where
  \<comment> \<open>a read of the key finds a record of the dictionary: an own property, or the
      prototype that an assignment to \<^verbatim>\<open>__proto__\<close> has installed\<close>
  "has_key d k \<longleftrightarrow> k \<in> fst ` set (own d) \<or> (k = ''__proto__'' \<and> proto d \<noteq> None)"

definition safe_key :: "string \<Rightarrow> bool" where
  \<comment> \<open>a key that \<^verbatim>\<open>Object.prototype\<close> does not define\<close>
  "safe_key k \<longleftrightarrow> k \<noteq> ''__proto__'' \<and> k \<notin> set object_prototype_members"

definition counted :: "string list \<Rightarrow> (string \<times> count) list \<Rightarrow> bool" where
  \<comment> \<open>the dictionary holds exactly the keys of the list, each once, with the number of its
      occurrences\<close>
  "counted ks kvs \<longleftrightarrow>
     distinct (map fst kvs) \<and> fst ` set kvs = set ks
     \<and> (\<forall>k \<in> set ks. map_of kvs k = Some (Num (count_list ks k)))"

definition number_part :: "string \<Rightarrow> string" where
  \<comment> \<open>the leading signed numeral of a text\<close>
  "number_part t =
     (if t \<noteq> [] \<and> hd t = CHR ''-'' then CHR ''-'' # takeWhile is_digit (tl t) else takeWhile is_digit t)"

definition utc_month :: "MeetingMetadata \<Rightarrow> int \<times> int" where
  \<comment> \<open>the UTC year and month of a meeting\<close>
  "utc_month meeting = (getUTCFullYear (m_date meeting), getUTCMonth (m_date meeting))"

definition score_by_the_words :: "CacheData \<Rightarrow> string \<Rightarrow> string \<Rightarrow> MeetingMetadata \<Rightarrow> nat" where
  \<comment> \<open>the score of a meeting as the specification words it: 2 for the title, 1 for each
      participant, 1 for the transcript stored under the id of the meeting\<close>
  "score_by_the_words data query meetingId meeting =
     2 * of_bool (includes_str (toLowerCase (m_title meeting)) (toLowerCase query))
     + length (filter (\<lambda>participant. includes_str (toLowerCase participant) (toLowerCase query))
                (m_participants meeting))
     + of_bool (case map_of (own (transcripts data)) meetingId of
                  Some transcript \<Rightarrow> includes_str (toLowerCase (t_content transcript)) (toLowerCase query)
                | None \<Rightarrow> False)"

section \<open>Properties\<close>

subsection \<open>Strings: blank and trimmed text\<close>

lemma blank_iff: "blank s \<longleftrightarrow> (\<forall>c \<in> set s. is_space c)"
proof
  assume "blank s"
  then have "dropWhile is_space (rev (dropWhile is_space s)) = []"
    by (simp add: blank_def trim_def)
  then have "\<forall>c \<in> set (dropWhile is_space s). is_space c"
    by (simp add: dropWhile_eq_Nil_conv)
  then have "dropWhile is_space s = []"
    using hd_dropWhile [of is_space s] hd_in_set [of "dropWhile is_space s"] by blast
  then show "\<forall>c \<in> set s. is_space c" by (simp only: dropWhile_eq_Nil_conv)
next
  assume "\<forall>c \<in> set s. is_space c"
  then have "dropWhile is_space s = []" by (induction s) auto
  then have "trim s = []" unfolding trim_def by (simp only: rev.simps dropWhile.simps)
  then show "blank s" by (simp only: blank_def)
qed

lemma trim_not_blank: "trim s \<noteq> [] \<Longrightarrow> \<not> blank (trim s)"
proof -
  assume ne: "trim s \<noteq> []"
  define w where "w = dropWhile is_space (rev (dropWhile is_space s))"
  have "w \<noteq> []" using ne by (simp add: trim_def w_def)
  then have "\<not> is_space (hd w)" and "hd w \<in> set w"
    using hd_dropWhile [of is_space "rev (dropWhile is_space s)"] by (simp_all add: w_def)
  moreover have "trim s = rev w" by (simp add: trim_def w_def)
  ultimately show ?thesis by (auto simp: blank_iff)
qed

lemma set_join: "p \<in> set parts \<Longrightarrow> set p \<subseteq> set (join sep parts)"
  by (induction sep parts rule: join.induct) auto

lemma join_not_blank:
  "parts \<noteq> [] \<Longrightarrow> \<forall>p \<in> set parts. \<not> blank p \<Longrightarrow> \<not> blank (join sep parts)"
proof -
  assume "parts \<noteq> []" and nb: "\<forall>p \<in> set parts. \<not> blank p"
  then obtain p where p: "p \<in> set parts" by (cases parts) auto
  with nb obtain c where "c \<in> set p" and "\<not> is_space c" by (auto simp: blank_iff)
  with set_join [OF p, of sep] show ?thesis by (auto simp: blank_iff)
qed

lemma nonblank_field_Some: "nonblank_field d name = Some s \<Longrightarrow> \<not> blank s"
  by (auto simp: nonblank_field_def split: option.splits json.splits if_splits)

lemma nonblank_field_trim: "nonblank_field d name = Some s \<Longrightarrow> \<not> blank (trim s)"
  using nonblank_field_Some [of d name s] trim_not_blank [of s] by (simp add: blank_def)

lemma segment_texts_not_blank: "p \<in> set (segment_texts segs) \<Longrightarrow> \<not> blank p"
  by (auto simp: segment_texts_def split: if_splits option.splits
           dest: nonblank_field_trim nonblank_field_trim [OF sym])

lemma transcript_parts_not_blank: "p \<in> set (transcript_parts v) \<Longrightarrow> \<not> blank p"
  by (cases v) (auto simp: content_candidate_def dest: segment_texts_not_blank nonblank_field_Some [OF sym] nonblank_field_Some split: option.splits)

lemma transcript_content_nonempty:
  "transcript_parts v \<noteq> [] \<Longrightarrow> t_content (build_transcript k v) \<noteq> []"
  using join_not_blank [of "transcript_parts v" "'' ''"] transcript_parts_not_blank
  by (auto simp: build_transcript_def blank_def)

subsection \<open>Dictionary objects\<close>

lemma set_insert_index: "set (insert_index i k v kvs) = insert (k, v) (set kvs)"
  by (induction kvs) (auto split: option.splits if_splits)

lemma set_replace:
  "k \<in> fst ` set kvs \<Longrightarrow>
   (\<lambda>(k', v'). if k' = k then (k', v) else (k', v')) ` set kvs = insert (k, v) {(k', v') \<in> set kvs. k' \<noteq> k}"
proof -
  assume "k \<in> fst ` set kvs"
  then obtain v0 where v0: "(k, v0) \<in> set kvs" by auto
  let ?f = "\<lambda>(k', v'). if k' = k then (k', v) else (k', v')"
  show "?f ` set kvs = insert (k, v) {(k', v') \<in> set kvs. k' \<noteq> k}"
  proof (intro set_eqI iffI)
    fix x assume "x \<in> ?f ` set kvs"
    then show "x \<in> insert (k, v) {(k', v') \<in> set kvs. k' \<noteq> k}"
      by (auto split: if_splits)
  next
    fix x assume x: "x \<in> insert (k, v) {(k', v') \<in> set kvs. k' \<noteq> k}"
    show "x \<in> ?f ` set kvs"
    proof (cases "x = (k, v)")
      case True
      have "?f (k, v0) = (k, v)" by simp
      with v0 True show ?thesis by (intro image_eqI [where x = "(k, v0)"]) simp_all
    next
      case False
      with x have "x \<in> set kvs" and "fst x \<noteq> k" by auto
      then have "?f x = x" by (simp add: case_prod_beta)
      with \<open>x \<in> set kvs\<close> show ?thesis by (metis (no_types, lifting) image_eqI)
    qed
  qed
qed

lemma set_set_own: "set (set_own k v kvs) = insert (k, v) {(k', v') \<in> set kvs. k' \<noteq> k}"
proof (cases "k \<in> fst ` set kvs")
  case True
  then show ?thesis by (simp add: set_own_def set_replace)
next
  case False
  then have "{(k', v') \<in> set kvs. k' \<noteq> k} = set kvs" by force
  with False show ?thesis by (auto simp: set_own_def set_insert_index split: option.splits)
qed

lemma has_key_dict_set: "has_key (dict_set k v d) k' \<longleftrightarrow> k' = k \<or> has_key d k'"
proof -
  have "fst ` set (set_own k v (own d)) = insert k (fst ` set (own d))"
    by (auto simp: set_set_own image_iff)
  then show ?thesis
    by (auto simp: has_key_def dict_set_def)
qed

lemma has_key_Found: "has_key d k \<Longrightarrow> \<exists>v. dict_get props d k = Found v"
proof (cases "map_of (own d) k")
  case None
  assume "has_key d k"
  with None have "k = ''__proto__''" and "proto d \<noteq> None"
    by (auto simp: has_key_def map_of_eq_None_iff)
  with None show ?thesis by (auto simp: dict_get_def)
next
  case (Some v)
  then show ?thesis by (simp add: dict_get_def)
qed

lemma dict_get_FoundD:
  "dict_get props d k = Found v \<Longrightarrow> k \<noteq> ''__proto__'' \<Longrightarrow> (k, v) \<in> set (own d)"
  by (auto simp: dict_get_def split: option.splits if_splits dest: map_of_SomeD)

lemma own_dict_set:
  "set (own (dict_set k v d)) =
     (if k = ''__proto__'' then set (own d) else insert (k, v) {(k', v') \<in> set (own d). k' \<noteq> k})"
  by (simp add: dict_set_def set_set_own)

lemma proto_key_dict_set:
  "''__proto__'' \<notin> fst ` set (own d) \<Longrightarrow> ''__proto__'' \<notin> fst ` set (own (dict_set k v d))"
  by (auto simp: own_dict_set split: if_splits)

subsection \<open>The three loops of parseCacheData\<close>

lemma meetings_loop_frame:
  "meetings_loop e xs c n = (c', n') \<Longrightarrow>
     documents c' = documents c \<and> transcripts c' = transcripts c \<and> lastUpdated c' = lastUpdated c"
  by (induction xs arbitrary: c n) (auto split: if_splits)

lemma meetings_loop_has_key:
  "meetings_loop e xs c n = (c', n') \<Longrightarrow>
     has_key (meetings c) k \<or> (\<exists>v. (k, v) \<in> set xs \<and> is_object v) \<Longrightarrow> has_key (meetings c') k"
proof (induction xs arbitrary: c n)
  case Nil
  then show ?case by simp
next
  case (Cons x xs)
  obtain k0 v0 where x: "x = (k0, v0)" by (cases x)
  show ?case
  proof (cases "is_object v0")
    case False
    with Cons.prems x have "meetings_loop e xs c n = (c', n')"
      and "has_key (meetings c) k \<or> (\<exists>v. (k, v) \<in> set xs \<and> is_object v)" by auto
    then show ?thesis by (rule Cons.IH)
  next
    case True
    let ?c = "c\<lparr>meetings := dict_set k0 (build_meeting e n k0 v0) (meetings c)\<rparr>"
    from Cons.prems x True have run: "meetings_loop e xs ?c (Suc n) = (c', n')" by simp
    from Cons.prems(2) x have "has_key (meetings ?c) k \<or> (\<exists>v. (k, v) \<in> set xs \<and> is_object v)"
      by (auto simp: has_key_dict_set)
    with run show ?thesis by (rule Cons.IH)
  qed
qed

lemma transcripts_loop_frame:
  "meetings (transcripts_loop xs c) = meetings c \<and> documents (transcripts_loop xs c) = documents c
   \<and> lastUpdated (transcripts_loop xs c) = lastUpdated c"
  by (induction xs arbitrary: c) auto

lemma transcripts_loop_own:
  "(k, t) \<in> set (own (transcripts (transcripts_loop xs c))) \<Longrightarrow>
     (k, t) \<in> set (own (transcripts c))
     \<or> (\<exists>v. (k, v) \<in> set xs \<and> transcript_parts v \<noteq> [] \<and> t = build_transcript k v)"
proof (induction xs arbitrary: c)
  case Nil
  then show ?case by simp
next
  case (Cons x xs)
  obtain k0 v0 where x: "x = (k0, v0)" by (cases x)
  show ?case
  proof (cases "transcript_parts v0 \<noteq> []")
    case False
    with Cons.prems x have "(k, t) \<in> set (own (transcripts (transcripts_loop xs c)))" by simp
    from Cons.IH [OF this] show ?thesis by auto
  next
    case True
    let ?c = "c\<lparr>transcripts := dict_set k0 (build_transcript k0 v0) (transcripts c)\<rparr>"
    from Cons.prems x True have "(k, t) \<in> set (own (transcripts (transcripts_loop xs ?c)))" by simp
    from Cons.IH [OF this] x True show ?thesis
      by (auto simp: own_dict_set split: if_splits)
  qed
qed

lemma transcripts_loop_proto:
  "proto (transcripts (transcripts_loop xs c)) = Some t \<Longrightarrow>
     proto (transcripts c) = Some t
     \<or> (\<exists>v. (''__proto__'', v) \<in> set xs \<and> transcript_parts v \<noteq> [] \<and> t = build_transcript ''__proto__'' v)"
proof (induction xs arbitrary: c)
  case Nil
  then show ?case by simp
next
  case (Cons x xs)
  obtain k0 v0 where x: "x = (k0, v0)" by (cases x)
  show ?case
  proof (cases "transcript_parts v0 \<noteq> []")
    case False
    with Cons.prems x have "proto (transcripts (transcripts_loop xs c)) = Some t" by simp
    from Cons.IH [OF this] show ?thesis by auto
  next
    case True
    let ?c = "c\<lparr>transcripts := dict_set k0 (build_transcript k0 v0) (transcripts c)\<rparr>"
    from Cons.prems x True have "proto (transcripts (transcripts_loop xs ?c)) = Some t" by simp
    from Cons.IH [OF this] x True show ?thesis
      by (auto simp: dict_set_def split: if_splits)
  qed
qed

lemma documents_loop_frame:
  "documents_loop pp panels xs c = Inr c' \<Longrightarrow>
     meetings c' = meetings c \<and> transcripts c' = transcripts c \<and> lastUpdated c' = lastUpdated c"
  by (induction xs arbitrary: c) (auto split: if_splits slot.splits)

lemma documents_loop_total:
  "\<forall>(k, v) \<in> set xs. is_object v \<longrightarrow> has_key (meetings c) k \<Longrightarrow> \<exists>c'. documents_loop pp panels xs c = Inr c'"
proof (induction xs arbitrary: c)
  case Nil
  then show ?case by simp
next
  case (Cons x xs)
  obtain k0 v0 where x: "x = (k0, v0)" by (cases x)
  show ?case
  proof (cases "is_object v0")
    case False
    with Cons x show ?thesis by simp
  next
    case True
    with Cons.prems x obtain m where m: "dict_get meeting_props (meetings c) k0 = Found m"
      using has_key_Found [of "meetings c" k0 meeting_props] by auto
    let ?c = "c\<lparr>documents := dict_set k0 (build_document m k0 (content_parts pp panels k0 v0)) (documents c)\<rparr>"
    from Cons.prems have "\<forall>(k, v) \<in> set xs. is_object v \<longrightarrow> has_key (meetings ?c) k" by simp
    from Cons.IH [OF this] x True m show ?thesis by simp
  qed
qed

lemma documents_loop_own:
  "documents_loop pp panels xs c = Inr c' \<Longrightarrow> (k, d) \<in> set (own (documents c')) \<Longrightarrow>
     (k, d) \<in> set (own (documents c))
     \<or> (\<exists>v m. (k, v) \<in> set xs \<and> is_object v \<and> (k, m) \<in> set (own (meetings c))
            \<and> d = build_document m k (content_parts pp panels k v))"
proof (induction xs arbitrary: c)
  case Nil
  then show ?case by simp
next
  case (Cons x xs)
  obtain k0 v0 where x: "x = (k0, v0)" by (cases x)
  show ?case
  proof (cases "is_object v0")
    case False
    with Cons.prems x have "documents_loop pp panels xs c = Inr c'" by simp
    from Cons.IH [OF this Cons.prems(2)] show ?thesis by auto
  next
    case True
    show ?thesis
    proof (cases "dict_get meeting_props (meetings c) k0")
      case Absent
      with Cons.prems x True have "documents_loop pp panels xs c = Inr c'" by simp
      from Cons.IH [OF this Cons.prems(2)] show ?thesis by auto
    next
      case Junk
      with Cons.prems x True show ?thesis by simp
    next
      case (Found m)
      let ?c = "c\<lparr>documents := dict_set k0 (build_document m k0 (content_parts pp panels k0 v0)) (documents c)\<rparr>"
      from Cons.prems x True Found have "documents_loop pp panels xs ?c = Inr c'" by simp
      from Cons.IH [OF this Cons.prems(2)] x True dict_get_FoundD [OF Found] show ?thesis
        by (auto simp: own_dict_set split: if_splits)
    qed
  qed
qed

subsection \<open>The sample run\<close>

lemma sample_run: "parseCacheData sample_env sample_raw True = Inr sample_cache"
  by (simp add: parseCacheData_def sample_env_def sample_raw_def sample_cache_def sample_meeting_def
      sample_document_def sample_transcript_def record_of_def empty_cache_def empty_dict_def
      build_meeting_def nonblank_field_def blank_def trim_def is_space_def person_name_def parseIsoDate_def
      replace_final_Z_def dict_set_def set_own_def array_index_def is_digit_def
      build_transcript_def segment_texts_def segment_sources_def add_speaker_def
      dict_get_def build_document_def content_parts_def notes_parts_def blank_line_def)

subsection \<open>parseCacheData: documents and transcripts\<close>

lemma parseCacheData_Inr:
  "parseCacheData e rawData pp = Inr c \<Longrightarrow>
     \<exists>c1 n c3. meetings_loop e (entries (record_of rawData ''documents'')) empty_cache 0 = (c1, n)
       \<and> documents_loop pp (record_of rawData ''documentPanels'') (entries (record_of rawData ''documents''))
            (transcripts_loop (entries (record_of rawData ''transcripts'')) c1) = Inr c3
       \<and> c = c3\<lparr>lastUpdated := Some (clock e n)\<rparr>"
  by (auto simp: parseCacheData_def Let_def split: if_splits prod.splits sum.splits)

lemma parseCacheData_total:
  "rawData \<noteq> JNull \<Longrightarrow> \<exists>c. parseCacheData e rawData pp = Inr c"
proof -
  assume nn: "rawData \<noteq> JNull"
  let ?docs = "entries (record_of rawData ''documents'')"
  obtain c1 n where c1: "meetings_loop e ?docs empty_cache 0 = (c1, n)"
    by (cases "meetings_loop e ?docs empty_cache 0")
  let ?c2 = "transcripts_loop (entries (record_of rawData ''transcripts'')) c1"
  have "\<forall>(k, v) \<in> set ?docs. is_object v \<longrightarrow> has_key (meetings ?c2) k"
    using meetings_loop_has_key [OF c1] transcripts_loop_frame [of _ c1] by auto
  from documents_loop_total [OF this] obtain c3 where
    "documents_loop pp (record_of rawData ''documentPanels'') ?docs ?c2 = Inr c3" by blast
  with nn c1 show ?thesis by (simp add: parseCacheData_def)
qed

text \<open>
  Claim C5. Whatever the raw input, a document stored under an id in the built cache has
  a meeting stored under the same id, and it carries that id and mirrors the title and
  the date of that meeting: no document is built for a record that has no meeting.
\<close>

theorem documents_have_meetings:
  assumes "parseCacheData e rawData parsePanels = Inr c"
    and "(k, d) \<in> set (own (documents c))"
  shows "\<exists>m. (k, m) \<in> set (own (meetings c))
            \<and> d_id d = k \<and> d_meetingId d = k \<and> d_title d = m_title m \<and> d_createdAt d = m_date m"
proof -
  from parseCacheData_Inr [OF assms(1)] obtain c1 n c3 where
    c1: "meetings_loop e (entries (record_of rawData ''documents'')) empty_cache 0 = (c1, n)"
    and c3: "documents_loop parsePanels (record_of rawData ''documentPanels'') (entries (record_of rawData ''documents''))
            (transcripts_loop (entries (record_of rawData ''transcripts'')) c1) = Inr c3"
    and c: "c = c3\<lparr>lastUpdated := Some (clock e n)\<rparr>" by blast
  let ?c2 = "transcripts_loop (entries (record_of rawData ''transcripts'')) c1"
  have "own (documents ?c2) = []"
    using meetings_loop_frame [OF c1] transcripts_loop_frame [of _ c1]
    by (simp add: empty_cache_def empty_dict_def)
  moreover from assms(2) c have "(k, d) \<in> set (own (documents c3))" by simp
  ultimately obtain v m where "(k, m) \<in> set (own (meetings ?c2))"
    and "d = build_document m k (content_parts parsePanels (record_of rawData ''documentPanels'') k v)"
    using documents_loop_own [OF c3, of k d] by auto
  moreover have "meetings c = meetings ?c2"
    using documents_loop_frame [OF c3] c by simp
  ultimately show ?thesis by (auto simp: build_document_def)
qed

lemma flattened_empty_iff:
  "trim (join '' '' (transcript_parts v)) = [] \<longleftrightarrow> transcript_parts v = []"
proof
  assume "trim (join '' '' (transcript_parts v)) = []"
  then show "transcript_parts v = []"
    using join_not_blank [of "transcript_parts v" "'' ''"] transcript_parts_not_blank [of _ v]
    by (auto simp: blank_def)
next
  assume "transcript_parts v = []"
  then show "trim (join '' '' (transcript_parts v)) = []" by (simp add: trim_def)
qed

theorem documents_have_meetings_witness:
  "\<exists>m. (''m1'', m) \<in> set (own (meetings sample_cache))
        \<and> d_id sample_document = ''m1'' \<and> d_meetingId sample_document = ''m1''
        \<and> d_title sample_document = m_title m \<and> d_createdAt sample_document = m_date m"
  using documents_have_meetings [OF sample_run, of "''m1''" sample_document]
  by (simp add: sample_cache_def)

text \<open>
  Claim C6. Every transcript of the built cache, array-shaped or object-shaped in the raw
  input, has a non-empty content and comes from a raw entry under its id in which a
  non-blank text fragment was found; an id all of whose raw entries flatten to the empty
  string has no transcript. The same holds for a transcript that an entry named
  \<^verbatim>\<open>__proto__\<close> has made the prototype of the dictionary.
\<close>

theorem transcripts_have_content:
  assumes "parseCacheData e rawData parsePanels = Inr c"
  shows "(\<forall>(k, t) \<in> set (own (transcripts c)).
            t_content t \<noteq> []
            \<and> (\<exists>v. (k, v) \<in> set (entries (record_of rawData ''transcripts''))
                   \<and> transcript_parts v \<noteq> [] \<and> t = build_transcript k v))
       \<and> (\<forall>t. proto (transcripts c) = Some t \<longrightarrow> t_content t \<noteq> [])
       \<and> (\<forall>k. (\<forall>v. (k, v) \<in> set (entries (record_of rawData ''transcripts''))
                     \<longrightarrow> trim (join '' '' (transcript_parts v)) = [])
               \<longrightarrow> k \<notin> fst ` set (own (transcripts c)))"
proof -
  from parseCacheData_Inr [OF assms(1)] obtain c1 n c3 where
    c1: "meetings_loop e (entries (record_of rawData ''documents'')) empty_cache 0 = (c1, n)"
    and c3: "documents_loop parsePanels (record_of rawData ''documentPanels'') (entries (record_of rawData ''documents''))
            (transcripts_loop (entries (record_of rawData ''transcripts'')) c1) = Inr c3"
    and c: "c = c3\<lparr>lastUpdated := Some (clock e n)\<rparr>" by blast
  let ?ts = "entries (record_of rawData ''transcripts'')"
  let ?c2 = "transcripts_loop ?ts c1"
  have start: "own (transcripts c1) = []" "proto (transcripts c1) = None"
    using meetings_loop_frame [OF c1] by (simp_all add: empty_cache_def empty_dict_def)
  have same: "transcripts c = transcripts ?c2"
    using documents_loop_frame [OF c3] c by simp
  have own: "\<exists>v. (k, v) \<in> set ?ts \<and> transcript_parts v \<noteq> [] \<and> t = build_transcript k v"
    if "(k, t) \<in> set (own (transcripts c))" for k t
    using transcripts_loop_own [of k t ?ts c1] that start same by simp
  have pr: "\<exists>v. transcript_parts v \<noteq> [] \<and> t = build_transcript ''__proto__'' v"
    if "proto (transcripts c) = Some t" for t
    using transcripts_loop_proto [of ?ts c1 t] that start same by auto
  have 1: "\<forall>(k, t) \<in> set (own (transcripts c)).
            t_content t \<noteq> []
            \<and> (\<exists>v. (k, v) \<in> set ?ts \<and> transcript_parts v \<noteq> [] \<and> t = build_transcript k v)"
    using own transcript_content_nonempty by blast
  have 2: "\<forall>t. proto (transcripts c) = Some t \<longrightarrow> t_content t \<noteq> []"
    using pr transcript_content_nonempty by blast
  have 3: "\<forall>k. (\<forall>v. (k, v) \<in> set ?ts \<longrightarrow> trim (join '' '' (transcript_parts v)) = [])
               \<longrightarrow> k \<notin> fst ` set (own (transcripts c))"
    using own flattened_empty_iff by fastforce
  from 1 2 3 show ?thesis by blast
qed

theorem transcripts_have_content_witness:
  "t_content sample_transcript \<noteq> [] \<and> ''m2'' \<notin> fst ` set (own (transcripts sample_cache))"
proof -
  note facts = transcripts_have_content [OF sample_run]
  have "(''m1'', sample_transcript) \<in> set (own (transcripts sample_cache))"
    by (simp add: sample_cache_def)
  with facts [THEN conjunct1] have 1: "t_content sample_transcript \<noteq> []"
    by (auto dest: bspec)
  have "trim (join '' '' (transcript_parts v)) = []"
    if "(''m2'', v) \<in> set (entries (record_of sample_raw ''transcripts''))" for v
    using that
    by (simp add: sample_raw_def record_of_def segment_texts_def nonblank_field_def blank_def trim_def is_space_def)
  then have 2: "''m2'' \<notin> fst ` set (own (transcripts sample_cache))"
    by (rule facts [THEN conjunct2, THEN conjunct2, rule_format])
  from 1 2 show ?thesis by simp
qed

subsection \<open>parseCacheData and the clock\<close>

lemma build_meeting_clock:
  "clock1 n = clock2 n \<Longrightarrow>
     build_meeting (e\<lparr>clock := clock1\<rparr>) n k v = build_meeting (e\<lparr>clock := clock2\<rparr>) n k v"
proof -
  assume "clock1 n = clock2 n"
  moreover have "parseIsoDate (e\<lparr>clock := f\<rparr>) s = parseIsoDate e s" for f s
    by (simp add: parseIsoDate_def)
  ultimately show ?thesis by (simp add: build_meeting_def Let_def split: option.splits)
qed

lemma meetings_loop_clock:
  "\<forall>i. n \<le> i \<and> i < n + length (filter (\<lambda>(k, v). is_object v) xs) \<longrightarrow> clock1 i = clock2 i \<Longrightarrow>
     fst (meetings_loop (e\<lparr>clock := clock1\<rparr>) xs c n) = fst (meetings_loop (e\<lparr>clock := clock2\<rparr>) xs c n)"
proof (induction xs arbitrary: c n)
  case Nil
  then show ?case by simp
next
  case (Cons x xs)
  obtain k0 v0 where x: "x = (k0, v0)" by (cases x)
  show ?case
  proof (cases "is_object v0")
    case False
    with Cons.prems x
    have "\<forall>i. n \<le> i \<and> i < n + length (filter (\<lambda>(k, v). is_object v) xs) \<longrightarrow> clock1 i = clock2 i"
      by simp
    from Cons.IH [OF this] x False show ?thesis by simp
  next
    case True
    with Cons.prems x have here: "clock1 n = clock2 n"
      and "\<forall>i. Suc n \<le> i \<and> i < Suc n + length (filter (\<lambda>(k, v). is_object v) xs) \<longrightarrow> clock1 i = clock2 i"
      by auto
    from Cons.IH [OF this(2)] x True build_meeting_clock [of clock1 n clock2 e k0 v0] here
    show ?thesis by simp
  qed
qed

text \<open>
  Claim C9. Two builds from the same raw input, with the same date parser, yield the
  same meetings, documents and transcripts whenever their clocks agree on the reads made
  for the meeting dates (one per raw record that is an object), in particular when both
  builds see one fixed load time there; the read made for \<open>lastUpdated\<close> is free to
  differ.
\<close>

theorem parseCacheData_repeatable:
  assumes "\<forall>i < length (filter (\<lambda>(k, v). is_object v) (entries (record_of rawData ''documents''))).
             clock1 i = clock2 i"
    and "parseCacheData (e\<lparr>clock := clock1\<rparr>) rawData parsePanels = Inr a"
    and "parseCacheData (e\<lparr>clock := clock2\<rparr>) rawData parsePanels = Inr b"
  shows "meetings a = meetings b \<and> documents a = documents b \<and> transcripts a = transcripts b"
proof -
  let ?docs = "entries (record_of rawData ''documents'')"
  from assms(1) have "fst (meetings_loop (e\<lparr>clock := clock1\<rparr>) ?docs empty_cache 0)
      = fst (meetings_loop (e\<lparr>clock := clock2\<rparr>) ?docs empty_cache 0)"
    by (intro meetings_loop_clock) simp
  with assms(2,3) show ?thesis
    by (auto simp: parseCacheData_def Let_def split: if_splits prod.splits sum.splits)
qed

theorem parseCacheData_repeatable_witness:
  "parseCacheData (sample_env\<lparr>clock := (\<lambda>k. if k = 0 then 1000 else 5000)\<rparr>) sample_raw True
     = Inr (sample_cache\<lparr>lastUpdated := Some 5000\<rparr>)
   \<and> meetings sample_cache = meetings (sample_cache\<lparr>lastUpdated := Some 5000\<rparr>)
   \<and> documents sample_cache = documents (sample_cache\<lparr>lastUpdated := Some 5000\<rparr>)
   \<and> transcripts sample_cache = transcripts (sample_cache\<lparr>lastUpdated := Some 5000\<rparr>)"
proof -
  have r1: "parseCacheData (sample_env\<lparr>clock := (\<lambda>k. 1000 + int k)\<rparr>) sample_raw True = Inr sample_cache"
    using sample_run by (simp add: sample_env_def)
  have r2: "parseCacheData (sample_env\<lparr>clock := (\<lambda>k. if k = 0 then 1000 else 5000)\<rparr>) sample_raw True
     = Inr (sample_cache\<lparr>lastUpdated := Some 5000\<rparr>)"
    by (simp add: parseCacheData_def sample_env_def sample_raw_def sample_cache_def sample_meeting_def
      sample_document_def sample_transcript_def record_of_def empty_cache_def empty_dict_def
      build_meeting_def nonblank_field_def blank_def trim_def is_space_def person_name_def parseIsoDate_def
      replace_final_Z_def dict_set_def set_own_def array_index_def is_digit_def
      build_transcript_def segment_texts_def segment_sources_def add_speaker_def
      dict_get_def build_document_def content_parts_def notes_parts_def blank_line_def)
  have agree: "\<forall>i < length (filter (\<lambda>(k, v). is_object v) (entries (record_of sample_raw ''documents''))).
      1000 + int i = (if i = 0 then 1000 else 5000)"
    by (simp add: sample_raw_def record_of_def)
  from parseCacheData_repeatable [OF agree r1 r2] r2 show ?thesis by simp
qed

subsection \<open>The content of a document\<close>

lemma structured_not_blank: "extractStructuredNotes n \<noteq> [] \<Longrightarrow> \<not> blank (extractStructuredNotes n)"
proof -
  assume ne: "extractStructuredNotes n \<noteq> []"
  have "extractStructuredNotes n = [] \<or> (\<exists>x. extractStructuredNotes n = trim x)"
    by (auto simp add: extractStructuredNotes_def simp del: extract_nodes.simps split: option.splits json.splits)
  with ne obtain x where "extractStructuredNotes n = trim x" by blast
  with ne show ?thesis using trim_not_blank [of x] by simp
qed

lemma notes_parts_not_blank: "p \<in> set (notes_parts v) \<Longrightarrow> \<not> blank p"
  by (auto simp: notes_parts_def Let_def split: option.splits if_splits
           dest: nonblank_field_Some nonblank_field_Some [OF sym] structured_not_blank)

lemma hasContent_iff: "list_ex (\<lambda>item. \<not> blank item) (notes_parts v) \<longleftrightarrow> notes_parts v \<noteq> []"
proof (cases "notes_parts v")
  case Nil
  then show ?thesis by simp
next
  case (Cons p ps)
  then have "\<not> blank p" using notes_parts_not_blank [of p v] by simp
  with Cons show ?thesis by simp
qed

lemma notes_parts_chosen:
  "notes_parts v =
     (case nonblank_field v ''notes_plain'' of
        Some plain \<Rightarrow> [plain]
      | None \<Rightarrow> (case nonblank_field v ''notes_markdown'' of
                    Some markdown \<Rightarrow> [markdown]
                  | None \<Rightarrow> (if structured_text v \<noteq> [] then [structured_text v] else [])))"
  by (simp add: notes_parts_def structured_text_def Let_def split: option.splits)

lemma content_parts_chosen:
  "content_parts pp panels k v =
     (case chosen_text pp panels k v of Some s \<Rightarrow> [s] | None \<Rightarrow> []) @ summary_lines v"
  unfolding content_parts_def hasContent_iff Let_def
  by (auto simp: notes_parts_chosen chosen_text_def summary_lines_def split: option.splits)

text \<open>
  Claim C2, as amended. The content of a built document is the text chosen by strict
  priority, followed by the \<^verbatim>\<open>Overview:\<close> and \<^verbatim>\<open>Summary:\<close> lines of the record
  (present when those fields are non-blank strings), joined by blank lines, the whole
  trimmed. The chosen text is the first of: the plain notes when they are not blank, the
  markdown notes when they are not blank, the structured notes when their extraction is
  not empty, the panel text when panel extraction is enabled and yields text; with panel
  extraction disabled and none of the notes usable nothing is chosen. A notes field
  counts only when it holds more than whitespace.
\<close>

theorem document_content_choice:
  assumes "parseCacheData e rawData parsePanels = Inr c"
    and "(k, d) \<in> set (own (documents c))"
  shows "\<exists>v. (k, v) \<in> set (entries (record_of rawData ''documents'')) \<and> is_object v
            \<and> d_content d =
                trim (join blank_line
                  ((case chosen_text parsePanels (record_of rawData ''documentPanels'') k v of
                      Some s \<Rightarrow> [s] | None \<Rightarrow> [])
                   @ summary_lines v))"
proof -
  from parseCacheData_Inr [OF assms(1)] obtain c1 n c3 where
    c1: "meetings_loop e (entries (record_of rawData ''documents'')) empty_cache 0 = (c1, n)"
    and c3: "documents_loop parsePanels (record_of rawData ''documentPanels'') (entries (record_of rawData ''documents''))
            (transcripts_loop (entries (record_of rawData ''transcripts'')) c1) = Inr c3"
    and c: "c = c3\<lparr>lastUpdated := Some (clock e n)\<rparr>" by blast
  let ?c2 = "transcripts_loop (entries (record_of rawData ''transcripts'')) c1"
  have "own (documents ?c2) = []"
    using meetings_loop_frame [OF c1] transcripts_loop_frame [of _ c1]
    by (simp add: empty_cache_def empty_dict_def)
  moreover from assms(2) c have "(k, d) \<in> set (own (documents c3))" by simp
  ultimately obtain v m where "(k, v) \<in> set (entries (record_of rawData ''documents''))" and "is_object v"
    and "d = build_document m k (content_parts parsePanels (record_of rawData ''documentPanels'') k v)"
    using documents_loop_own [OF c3, of k d] by auto
  then show ?thesis by (auto simp: build_document_def content_parts_chosen)
qed

theorem document_content_choice_witness:
  "\<exists>v. (''m1'', v) \<in> set (entries (record_of sample_raw ''documents'')) \<and> is_object v
       \<and> d_content sample_document =
           trim (join blank_line
             ((case chosen_text True (record_of sample_raw ''documentPanels'') ''m1'' v of
                 Some s \<Rightarrow> [s] | None \<Rightarrow> [])
              @ summary_lines v))"
  using document_content_choice [OF sample_run, of "''m1''" sample_document]
  by (simp add: sample_cache_def)

text \<open>
  Claim C2 as stated fails: with plain notes of one space and markdown notes \<^verbatim>\<open>abc\<close>, both
  non-empty and different, the content is the markdown value.
\<close>

theorem document_content_counterexample:
  "map_sum id (\<lambda>c. map (\<lambda>(k, d). (k, d_content d)) (own (documents c)))
     (parseCacheData sample_env blank_plain_raw True) = Inr [(''m1'', ''abc'')]"
  by (simp add: parseCacheData_def sample_env_def blank_plain_raw_def record_of_def empty_cache_def empty_dict_def
      build_meeting_def nonblank_field_def blank_def trim_def is_space_def person_name_def parseIsoDate_def
      replace_final_Z_def dict_set_def set_own_def array_index_def is_digit_def
      dict_get_def build_document_def content_parts_def notes_parts_def blank_line_def)

subsection \<open>The flatteners\<close>

lemma length_concat_le:
  "(\<And>x. x \<in> set xs \<Longrightarrow> length (f x) \<le> g x) \<Longrightarrow> length (concat (map f xs)) \<le> size_list g xs"
  by (induction xs) (auto simp: add_mono le_SucI)

lemma length_extract_nodes: "length (extract_nodes v) \<le> size v"
proof (cases v)
  case (JArr items)
  have "length (concat (map (\<lambda>item.
       if \<not> is_object item then []
       else if field item ''type'' = Some (JStr ''paragraph'')
               \<and> (case field item ''content'' of Some (JArr c) \<Rightarrow> True | _ \<Rightarrow> False)
            then (case field item ''content'' of Some c \<Rightarrow> [join '' '' (extract_nodes c)] | None \<Rightarrow> [])
       else if field item ''type'' = Some (JStr ''text'')
               \<and> (case field item ''text'' of Some (JStr t) \<Rightarrow> True | _ \<Rightarrow> False)
            then (case field item ''text'' of Some (JStr t) \<Rightarrow> [t] | _ \<Rightarrow> [])
       else (case field item ''content'' of Some (JArr c) \<Rightarrow> [join '' '' (extract_nodes (JArr c))] | _ \<Rightarrow> []))
     items)) \<le> size_list size items"
  proof (rule length_concat_le)
    fix item :: json
    have "is_object item \<Longrightarrow> 1 \<le> size item" by (cases item) simp_all
    then show "length (if \<not> is_object item then []
       else if field item ''type'' = Some (JStr ''paragraph'')
               \<and> (case field item ''content'' of Some (JArr c) \<Rightarrow> True | _ \<Rightarrow> False)
            then (case field item ''content'' of Some c \<Rightarrow> [join '' '' (extract_nodes c)] | None \<Rightarrow> [])
       else if field item ''type'' = Some (JStr ''text'')
               \<and> (case field item ''text'' of Some (JStr t) \<Rightarrow> True | _ \<Rightarrow> False)
            then (case field item ''text'' of Some (JStr t) \<Rightarrow> [t] | _ \<Rightarrow> [])
       else (case field item ''content'' of Some (JArr c) \<Rightarrow> [join '' '' (extract_nodes (JArr c))] | _ \<Rightarrow> []))
       \<le> size item"
      by (auto simp del: extract_nodes.simps split: option.splits json.splits)
  qed
  then show ?thesis using JArr by simp
qed simp_all

lemma size_lookup:
  "map_of kvs k = Some v \<Longrightarrow> size v < Suc (size_list (size_prod (\<lambda>_. 0) size) kvs)"
  for kvs :: "(string \<times> json) list"
  by (induction kvs) (auto split: if_splits)

lemma length_walk: "length (walk v) \<le> size v"
proof (induction v rule: walk.induct)
  case (1 items)
  have "length (concat (map walk items)) \<le> size_list size items"
    by (rule length_concat_le) (rule 1)
  then show ?case by simp
next
  case (2 kvs)
  show ?case
  proof (cases "map_of kvs ''content''")
    case None
    then show ?thesis by (simp split: option.splits json.splits)
  next
    case (Some c)
    with 2 size_lookup [OF Some] show ?thesis by (simp split: option.splits json.splits)
  qed
qed simp_all

text \<open>
  Claim C10. Both flatteners are total functions on JSON values: \<open>extract_nodes\<close> and
  \<open>walk\<close> recurse on strictly smaller values (the termination proofs of their
  definitions, by the size of the value), no branch of them raises, and the number of
  parts they collect is bounded by the size of the value. A value that is not an object
  with a \<^verbatim>\<open>content\<close> array flattens to the empty string in structured-notes mode; a
  panel value that is neither an array nor an object flattens to the empty string; a
  node without \<^verbatim>\<open>type\<close> and \<^verbatim>\<open>content\<close> contributes nothing.
\<close>

theorem flatteners_total:
  "((\<forall>kvs c. notesData = JObj kvs \<longrightarrow> map_of kvs ''content'' \<noteq> Some (JArr c))
      \<longrightarrow> extractStructuredNotes notesData = [])
   \<and> ((\<forall>xs. panelData \<noteq> Some (JArr xs)) \<and> (\<forall>kvs. panelData \<noteq> Some (JObj kvs))
      \<longrightarrow> extractDocumentPanelContent panelData = [])
   \<and> (\<forall>kvs. map_of kvs ''type'' = None \<and> map_of kvs ''content'' = None
      \<longrightarrow> extract_nodes (JArr [JObj kvs]) = [] \<and> walk (JObj kvs) = [])
   \<and> length (extract_nodes node) \<le> size node
   \<and> length (walk node) \<le> size node"
proof -
  have 1: "(\<forall>kvs c. notesData = JObj kvs \<longrightarrow> map_of kvs ''content'' \<noteq> Some (JArr c))
      \<longrightarrow> extractStructuredNotes notesData = []"
    by (cases notesData) (auto simp: extractStructuredNotes_def simp del: extract_nodes.simps split: option.splits json.splits)
  have 2: "(\<forall>xs. panelData \<noteq> Some (JArr xs)) \<and> (\<forall>kvs. panelData \<noteq> Some (JObj kvs))
      \<longrightarrow> extractDocumentPanelContent panelData = []"
    by (cases panelData rule: extractDocumentPanelContent.cases) simp_all
  have 3: "\<forall>kvs. map_of kvs ''type'' = None \<and> map_of kvs ''content'' = None
      \<longrightarrow> extract_nodes (JArr [JObj kvs]) = [] \<and> walk (JObj kvs) = []"
    by simp
  from 1 2 3 length_extract_nodes length_walk show ?thesis by blast
qed

theorem flatteners_total_witness:
  "extractStructuredNotes (JStr ''text'') = [] \<and> extractDocumentPanelContent (Some (JNum 3)) = []
   \<and> extract_nodes (JArr [JObj []]) = [] \<and> walk (JObj []) = []"
  using flatteners_total [of "JStr ''text''" "Some (JNum 3)" JNull] by simp

subsection \<open>Counting in a dictionary\<close>

lemma map_of_insert_index:
  "k \<notin> fst ` set kvs \<Longrightarrow> map_of (insert_index i k v kvs) = (map_of kvs)(k \<mapsto> v)"
  by (induction kvs) (auto split: option.splits simp: fun_upd_twist)

lemma map_of_replace:
  "map_of (map (\<lambda>(k', v'). if k' = k then (k', v) else (k', v')) kvs) k' =
     (if k' = k then (if k \<in> fst ` set kvs then Some v else None) else map_of kvs k')"
  by (induction kvs) (auto simp: image_iff, force+)

lemma map_of_append_new:
  "k \<notin> fst ` set kvs \<Longrightarrow> map_of (kvs @ [(k, v)]) = (map_of kvs)(k \<mapsto> v)"
proof
  fix k'
  assume "k \<notin> fst ` set kvs"
  then have "map_of kvs k = None" by (simp add: map_of_eq_None_iff)
  then show "map_of (kvs @ [(k, v)]) k' = ((map_of kvs)(k \<mapsto> v)) k'"
    by (auto simp: map_add_def split: option.splits)
qed

lemma map_of_set_own: "map_of (set_own k v kvs) = (map_of kvs)(k \<mapsto> v)"
proof (cases "k \<in> fst ` set kvs")
  case True
  then have "map_of (set_own k v kvs) k' = ((map_of kvs)(k \<mapsto> v)) k'" for k'
    by (simp add: set_own_def map_of_replace)
  then show ?thesis by (rule ext)
next
  case False
  then show ?thesis
    using map_of_append_new [of k kvs v]
    by (simp add: set_own_def map_of_insert_index split: option.splits)
qed

lemma distinct_insert_index:
  "k \<notin> fst ` set kvs \<Longrightarrow> distinct (map fst kvs) \<Longrightarrow> distinct (map fst (insert_index i k v kvs))"
proof (induction kvs)
  case Nil
  then show ?case by simp
next
  case (Cons x kvs)
  obtain a b where x: "x = (a, b)" by (cases x)
  have "fst ` set (insert_index i k v kvs) = insert k (fst ` set kvs)"
    by (simp add: set_insert_index)
  with Cons x show ?case by (auto split: option.splits)
qed

lemma map_fst_replace: "map fst (map (\<lambda>(k', v'). if k' = k then (k', v) else (k', v')) kvs) = map fst kvs"
  by (induction kvs) auto

lemma distinct_set_own: "distinct (map fst kvs) \<Longrightarrow> distinct (map fst (set_own k v kvs))"
  by (auto simp: set_own_def map_fst_replace distinct_insert_index split: option.splits simp del: map_map)

lemma keys_set_own: "fst ` set (set_own k v kvs) = insert k (fst ` set kvs)"
  by (auto simp: set_set_own image_iff)

lemma counted_bump:
  assumes "counted ks kvs" and "safe_key k"
  shows "counted (ks @ [k]) (bump k kvs)"
proof (cases "k \<in> set ks")
  case True
  with assms(1) have look: "map_of kvs k = Some (Num (count_list ks k))" by (simp add: counted_def)
  then have b: "bump k kvs = set_own k (Num (count_list ks k + 1)) kvs" by (simp add: bump_def)
  from assms(1) True show ?thesis
    unfolding b counted_def by (auto simp: distinct_set_own keys_set_own map_of_set_own)
next
  case False
  with assms(1) have "map_of kvs k = None" by (auto simp: counted_def map_of_eq_None_iff)
  with assms(2) have b: "bump k kvs = set_own k (Num 1) kvs" by (simp add: bump_def safe_key_def)
  from assms(1) False show ?thesis
    unfolding b counted_def by (auto simp: distinct_set_own keys_set_own map_of_set_own)
qed

lemma counted_fold_bump:
  "counted ks0 kvs \<Longrightarrow> \<forall>k \<in> set ks. safe_key k \<Longrightarrow> counted (ks0 @ ks) (fold bump ks kvs)"
proof (induction ks arbitrary: ks0 kvs)
  case Nil
  then show ?case by simp
next
  case (Cons k ks)
  from Cons.prems have "counted (ks0 @ [k]) (bump k kvs)" by (simp add: counted_bump)
  moreover from Cons.prems have "\<forall>k \<in> set ks. safe_key k" by simp
  ultimately have "counted ((ks0 @ [k]) @ ks) (fold bump ks (bump k kvs))" by (rule Cons.IH)
  then show ?case by simp
qed

lemma counted_from_empty: "\<forall>k \<in> set ks. safe_key k \<Longrightarrow> counted ks (fold bump ks [])"
  using counted_fold_bump [of "[]" "[]" ks] by (simp add: counted_def)

lemma counted_length: "counted ks kvs \<Longrightarrow> length kvs = card (set ks)"
proof -
  assume c: "counted ks kvs"
  then have "card (set (map fst kvs)) = length (map fst kvs)" by (intro distinct_card) (simp add: counted_def)
  with c show ?thesis by (simp add: counted_def)
qed

lemma count_list_map: "count_list (map f xs) (f x) = length (filter (\<lambda>y. f y = f x) xs)"
  by (induction xs) auto

subsection \<open>Decimal numerals, the month key and the frequency analysis\<close>

lemma digit_char_inverse: "d < 10 \<Longrightarrow> digit_val (digit_char d) = d \<and> is_digit (digit_char d)"
  by (simp add: digit_val_def digit_char_def is_digit_def)

lemma read_nat_snoc: "read_nat (s @ [c]) = 10 * read_nat s + digit_val c"
  by (simp add: read_nat_def)

lemma read_digits: "n < f \<Longrightarrow> read_nat (digits f n) = n"
proof (induction f arbitrary: n)
  case 0
  then show ?case by simp
next
  case (Suc f)
  show ?case
  proof (cases "n < 10")
    case True
    then show ?thesis by (simp add: read_nat_def digit_char_inverse)
  next
    case False
    then have "n div 10 < f" using Suc.prems by simp
    from Suc.IH [OF this] False show ?thesis
      by (simp add: read_nat_snoc digit_char_inverse)
  qed
qed

lemma digits_shape: "n < f \<Longrightarrow> digits f n \<noteq> [] \<and> list_all is_digit (digits f n)"
proof (induction f arbitrary: n)
  case 0
  then show ?case by simp
next
  case (Suc f)
  show ?case
  proof (cases "n < 10")
    case True
    then show ?thesis by (simp add: digit_char_inverse)
  next
    case False
    then have "n div 10 < f" using Suc.prems by simp
    from Suc.IH [OF this] False show ?thesis by (simp add: digit_char_inverse)
  qed
qed

lemma digits_leading: "n < f \<Longrightarrow> 0 < n \<Longrightarrow> hd (digits f n) \<noteq> CHR ''0''"
proof (induction f arbitrary: n)
  case 0
  then show ?case by simp
next
  case (Suc f)
  show ?case
  proof (cases "n < 10")
    case True
    have "(of_char (digit_char n) :: nat) = 48 + n" using True by (simp add: digit_char_def)
    moreover have "(of_char (CHR ''0'') :: nat) = 48" by simp
    ultimately have "digit_char n \<noteq> CHR ''0''" using Suc.prems(2) by auto
    with True show ?thesis by simp
  next
    case False
    then have lt: "n div 10 < f" and pos: "0 < n div 10" using Suc.prems by simp_all
    from Suc.IH [OF lt pos] digits_shape [OF lt] False show ?thesis by simp
  qed
qed

lemma show_nat_inverse: "read_nat (show_nat n) = n"
  unfolding show_nat_def by (rule read_digits) simp

lemma show_nat_shape: "show_nat n \<noteq> [] \<and> list_all is_digit (show_nat n)"
  unfolding show_nat_def by (rule digits_shape) simp

lemma show_nat_zero: "show_nat 0 = ''0''"
  by code_simp

lemma show_nat_leading: "0 < n \<Longrightarrow> hd (show_nat n) \<noteq> CHR ''0''"
  unfolding show_nat_def by (rule digits_leading) simp_all

lemma show_nat_inj: "show_nat a = show_nat b \<Longrightarrow> a = b"
proof -
  assume "show_nat a = show_nat b"
  then have "read_nat (show_nat a) = read_nat (show_nat b)" by (rule arg_cong)
  then show "a = b" by (simp only: show_nat_inverse)
qed

lemma minus_not_digit: "\<not> is_digit (CHR ''-'')"
  by (simp add: is_digit_def)

lemma show_nat_no_minus: "hd (show_nat n) \<noteq> CHR ''-''"
  using show_nat_shape [of n] minus_not_digit by (cases "show_nat n") auto

lemma show_int_inj: "show_int a = show_int b \<Longrightarrow> a = b"
proof -
  assume eq: "show_int a = show_int b"
  have neg: "x < 0 \<Longrightarrow> hd (show_int x) = CHR ''-''" for x by (simp add: show_int_def)
  have pos: "\<not> x < 0 \<Longrightarrow> hd (show_int x) \<noteq> CHR ''-''" for x
    using show_nat_no_minus by (simp add: show_int_def)
  show ?thesis
  proof (cases "a < 0")
    case True
    have b: "b < 0"
    proof (rule ccontr)
      assume "\<not> b < 0"
      from pos [OF this] neg [OF True] eq show False by simp
    qed
    with True eq have "show_nat (nat (- a)) = show_nat (nat (- b))" by (simp add: show_int_def)
    then have "nat (- a) = nat (- b)" by (rule show_nat_inj)
    with True b show ?thesis by simp
  next
    case False
    have b: "\<not> b < 0"
    proof
      assume "b < 0"
      from neg [OF this] pos [OF False] eq show False by simp
    qed
    with False eq have "show_nat (nat a) = show_nat (nat b)" by (simp add: show_int_def)
    then have "nat a = nat b" by (rule show_nat_inj)
    with False b show ?thesis by simp
  qed
qed


lemma show_int_nonempty: "show_int x \<noteq> []"
  using show_nat_shape by (simp add: show_int_def)

lemma takeWhile_digits: "list_all is_digit ds \<Longrightarrow> takeWhile is_digit (ds @ CHR ''-'' # p) = ds"
  by (induction ds) (simp_all add: minus_not_digit)

lemma number_part_show_int: "number_part (show_int y @ CHR ''-'' # p) = show_int y"
proof (cases "y < 0")
  case True
  then have "show_int y = CHR ''-'' # show_nat (nat (- y))" by (simp add: show_int_def)
  then show ?thesis
    using show_nat_shape [of "nat (- y)"] by (simp add: number_part_def takeWhile_digits)
next
  case False
  then have s: "show_int y = show_nat (nat y)" by (simp add: show_int_def)
  have "hd (show_nat (nat y) @ CHR ''-'' # p) \<noteq> CHR ''-''"
    using show_nat_shape [of "nat y"] show_nat_no_minus [of "nat y"] by simp
  then show ?thesis
    using show_nat_shape [of "nat y"] by (simp add: s number_part_def takeWhile_digits)
qed

lemma year_month_split:
  assumes "show_int y1 @ CHR ''-'' # p1 = show_int y2 @ CHR ''-'' # p2"
  shows "y1 = y2 \<and> p1 = p2"
proof -
  from assms have "number_part (show_int y1 @ CHR ''-'' # p1) = number_part (show_int y2 @ CHR ''-'' # p2)"
    by (rule arg_cong)
  then have "show_int y1 = show_int y2" by (simp only: number_part_show_int)
  with assms show ?thesis by (auto dest: show_int_inj)
qed

lemma padStart2_show_int_inj:
  assumes "padStart2 (show_int a) = padStart2 (show_int b)"
  shows "a = b"
proof -
  have short: "padStart2 s = CHR ''0'' # s" if "length s = 1" for s
    using that by (simp add: padStart2_def)
  have long: "padStart2 s = s" if "2 \<le> length s" for s
    using that by (simp add: padStart2_def)
  have clash: False if one: "length (show_int x) = 1" and two: "2 \<le> length (show_int y)"
    and eq: "CHR ''0'' # show_int x = show_int y" for x y
  proof -
    from eq have hd0: "hd (show_int y) = CHR ''0''" by (metis list.sel(1))
    have "\<not> y < 0"
    proof
      assume "y < 0"
      then have "hd (show_int y) = CHR ''-''" by (simp add: show_int_def)
      with hd0 show False by simp
    qed
    then have sy: "show_int y = show_nat (nat y)" by (simp add: show_int_def)
    with hd0 have "\<not> 0 < nat y" using show_nat_leading [of "nat y"] by auto
    then have "nat y = 0" by simp
    with sy have "show_int y = ''0''" by (simp only: show_nat_zero)
    with two show False by simp
  qed
  have ne: "1 \<le> length (show_int x)" for x
    using show_int_nonempty [of x] by (cases "show_int x") simp_all
  consider "length (show_int a) = 1" "length (show_int b) = 1"
    | "length (show_int a) = 1" "2 \<le> length (show_int b)"
    | "2 \<le> length (show_int a)" "length (show_int b) = 1"
    | "2 \<le> length (show_int a)" "2 \<le> length (show_int b)"
    using ne [of a] ne [of b] by linarith
  then show ?thesis
  proof cases
    case 1
    with assms have "show_int a = show_int b" by (simp add: short)
    then show ?thesis by (rule show_int_inj)
  next
    case 2
    with assms have "CHR ''0'' # show_int a = show_int b" by (simp add: short long)
    with clash [of a b] 2 show ?thesis by blast
  next
    case 3
    with assms have "CHR ''0'' # show_int b = show_int a" by (simp add: short long)
    with clash [of b a] 3 show ?thesis by blast
  next
    case 4
    with assms have "show_int a = show_int b" by (simp add: long)
    then show ?thesis by (rule show_int_inj)
  qed
qed

lemma month_key_inj:
  "month_key a = month_key b \<longleftrightarrow>
     getUTCFullYear (m_date a) = getUTCFullYear (m_date b) \<and> getUTCMonth (m_date a) = getUTCMonth (m_date b)"
proof
  assume "month_key a = month_key b"
  then have "show_int (getUTCFullYear (m_date a)) @ CHR ''-'' # padStart2 (show_int (getUTCMonth (m_date a) + 1))
    = show_int (getUTCFullYear (m_date b)) @ CHR ''-'' # padStart2 (show_int (getUTCMonth (m_date b) + 1))"
    by (simp add: month_key_def Let_def)
  from year_month_split [OF this]
  have y: "getUTCFullYear (m_date a) = getUTCFullYear (m_date b)"
    and p: "padStart2 (show_int (getUTCMonth (m_date a) + 1)) = padStart2 (show_int (getUTCMonth (m_date b) + 1))"
    by simp_all
  from padStart2_show_int_inj [OF p] y
  show "getUTCFullYear (m_date a) = getUTCFullYear (m_date b) \<and> getUTCMonth (m_date a) = getUTCMonth (m_date b)"
    by simp
next
  assume "getUTCFullYear (m_date a) = getUTCFullYear (m_date b) \<and> getUTCMonth (m_date a) = getUTCMonth (m_date b)"
  then show "month_key a = month_key b" by (simp add: month_key_def Let_def)
qed


lemma month_key_safe: "safe_key (month_key m)"
proof -
  have "CHR ''-'' \<in> set (month_key m)" by (simp add: month_key_def Let_def)
  moreover have "\<forall>k \<in> set (''__proto__'' # object_prototype_members). CHR ''-'' \<notin> set k"
    by (simp add: object_prototype_members_def)
  ultimately show ?thesis by (auto simp: safe_key_def)
qed

lemma month_keys_safe: "\<forall>k \<in> set (map month_key ms). safe_key k"
proof
  fix k assume "k \<in> set (map month_key ms)"
  then obtain m where "k = month_key m" by auto
  then show "safe_key k" by (simp only: month_key_safe)
qed

lemma byMonth_counted:
  "counted (map month_key ms) (byMonth (analyzeFrequencyPatterns ms))"
proof -
  have "counted (map month_key ms) (fold bump (map month_key ms) [])"
    using month_keys_safe by (rule counted_from_empty)
  moreover have "byMonth (analyzeFrequencyPatterns ms) = fold bump (map month_key ms) []"
    by (simp add: analyzeFrequencyPatterns_def Let_def fold_map comp_def)
  ultimately show ?thesis by (simp only:)
qed


lemma month_key_utc_month: "month_key a = month_key b \<longleftrightarrow> utc_month a = utc_month b"
  by (simp add: month_key_inj utc_month_def)

lemma same_kernel_remdups:
  "(\<And>a b. f a = f b \<longleftrightarrow> g a = g b) \<Longrightarrow> length (remdups (map f xs)) = length (remdups (map g xs))"
proof (induction xs)
  case Nil
  then show ?case by simp
next
  case (Cons x xs)
  have "f x \<in> f ` set xs \<longleftrightarrow> g x \<in> g ` set xs"
    using Cons.prems by (auto simp: image_iff)
  with Cons show ?case by simp
qed

lemma card_months: "card (month_key ` set ms) = card (utc_month ` set ms)"
proof -
  have "length (remdups (map month_key ms)) = length (remdups (map utc_month ms))"
    by (rule same_kernel_remdups) (rule month_key_utc_month)
  then show ?thesis by (simp add: length_remdups_card_conv)
qed

text \<open>
  Claim C3. The frequency analysis counts the meetings it is given, keeps one bucket for
  every UTC year-month that holds a meeting (labelled by \<open>month_key\<close>, which tells the
  year-months apart), stores in the bucket of a meeting the number of meetings of its
  year-month, and returns as average the number of meetings divided by the number of
  distinct year-months that hold a meeting, 0 for no meetings. The quotient is the exact
  one.
\<close>

theorem frequency_average:
  "meetingCount (analyzeFrequencyPatterns ms) = length ms
   \<and> distinct (map fst (byMonth (analyzeFrequencyPatterns ms)))
   \<and> fst ` set (byMonth (analyzeFrequencyPatterns ms)) = month_key ` set ms
   \<and> length (byMonth (analyzeFrequencyPatterns ms)) = card (utc_month ` set ms)
   \<and> (\<forall>a b. month_key a = month_key b \<longleftrightarrow> utc_month a = utc_month b)
   \<and> (\<forall>m \<in> set ms. map_of (byMonth (analyzeFrequencyPatterns ms)) (month_key m)
                        = Some (Num (length (filter (\<lambda>m'. utc_month m' = utc_month m) ms))))
   \<and> averagePerMonth (analyzeFrequencyPatterns ms)
       = (if ms = [] then 0 else of_nat (length ms) / of_nat (card (utc_month ` set ms)))"
proof -
  note c = byMonth_counted [of ms]
  have 1: "meetingCount (analyzeFrequencyPatterns ms) = length ms"
    by (simp add: analyzeFrequencyPatterns_def Let_def)
  from c have 2: "distinct (map fst (byMonth (analyzeFrequencyPatterns ms)))"
    and 3: "fst ` set (byMonth (analyzeFrequencyPatterns ms)) = month_key ` set ms"
    by (simp_all add: counted_def)
  have len: "length (byMonth (analyzeFrequencyPatterns ms)) = card (utc_month ` set ms)"
    using counted_length [OF c] card_months [of ms] by simp
  have 4: "map_of (byMonth (analyzeFrequencyPatterns ms)) (month_key m)
             = Some (Num (length (filter (\<lambda>m'. utc_month m' = utc_month m) ms)))"
    if "m \<in> set ms" for m
  proof -
    from c that have "map_of (byMonth (analyzeFrequencyPatterns ms)) (month_key m)
        = Some (Num (count_list (map month_key ms) (month_key m)))"
      by (simp add: counted_def)
    also have "count_list (map month_key ms) (month_key m)
        = length (filter (\<lambda>m'. month_key m' = month_key m) ms)"
      by (rule count_list_map)
    also have "filter (\<lambda>m'. month_key m' = month_key m) ms = filter (\<lambda>m'. utc_month m' = utc_month m) ms"
      by (simp only: month_key_utc_month)
    finally show ?thesis .
  qed
  have "averagePerMonth (analyzeFrequencyPatterns ms)
          = (if length (byMonth (analyzeFrequencyPatterns ms)) > 0
             then of_nat (length ms) / of_nat (length (byMonth (analyzeFrequencyPatterns ms))) else 0)"
    by (simp add: analyzeFrequencyPatterns_def Let_def)
  moreover have "card (utc_month ` set ms) > 0 \<longleftrightarrow> ms \<noteq> []"
    by (simp add: card_gt_0_iff)
  ultimately have 5: "averagePerMonth (analyzeFrequencyPatterns ms)
       = (if ms = [] then 0 else of_nat (length ms) / of_nat (card (utc_month ` set ms)))"
    using len by simp
  from 1 2 3 len 4 5 month_key_utc_month show ?thesis by blast
qed

lemma january_keys:
  "map month_key january_meetings = [''2024-01'', ''2024-01'']
   \<and> map utc_month january_meetings = [(2024, 0), (2024, 0)]"
  by code_simp

theorem frequency_average_witness:
  "length (byMonth (analyzeFrequencyPatterns january_meetings)) = 1
   \<and> map_of (byMonth (analyzeFrequencyPatterns january_meetings)) ''2024-01'' = Some (Num 2)
   \<and> averagePerMonth (analyzeFrequencyPatterns january_meetings) = 2"
proof -
  note facts = frequency_average [of january_meetings]
  have months: "utc_month ` set january_meetings = {(2024, 0)}"
  proof -
    have "set (map utc_month january_meetings) = {(2024, 0)}" by (simp only: january_keys) simp
    then show ?thesis by simp
  qed
  have m: "hd january_meetings \<in> set january_meetings" and l: "length january_meetings = 2"
    and ne: "january_meetings \<noteq> []"
    by (simp_all add: january_meetings_def)
  have k: "month_key (hd january_meetings) = ''2024-01''"
    and u: "utc_month (hd january_meetings) = (2024, 0)"
    using january_keys by (simp_all add: january_meetings_def)
  have f: "filter (\<lambda>m'. utc_month m' = (2024, 0)) january_meetings = january_meetings"
    using january_keys by (simp add: january_meetings_def)
  from facts months have 1: "length (byMonth (analyzeFrequencyPatterns january_meetings)) = 1"
    by simp
  from facts m have "map_of (byMonth (analyzeFrequencyPatterns january_meetings)) (month_key (hd january_meetings))
      = Some (Num (length (filter (\<lambda>m'. utc_month m' = utc_month (hd january_meetings)) january_meetings)))"
    by blast
  then have 2: "map_of (byMonth (analyzeFrequencyPatterns january_meetings)) ''2024-01'' = Some (Num 2)"
    by (simp only: k u f l)
  from facts months l ne have 3: "averagePerMonth (analyzeFrequencyPatterns january_meetings) = 2"
    by simp
  from 1 2 3 show ?thesis by simp
qed

subsection \<open>The limit check of the search command\<close>

lemma meeting_score_error: "meeting_score data q k m = Inl err \<Longrightarrow> err = TypeError"
  by (auto simp: meeting_score_def Let_def split: slot.splits)

lemma search_loop_error: "search_loop data q ms scored = Inl err \<Longrightarrow> err = TypeError"
  by (induction ms arbitrary: scored) (auto split: sum.splits dest: meeting_score_error)

lemma searchMeetings_error: "searchMeetings data query limit = Inl err \<Longrightarrow> err = TypeError"
  by (auto simp: searchMeetings_def split: sum.splits dest: search_loop_error)

lemma five_halves_not_integer: "(5 / 2 :: rat) \<notin> \<int>"
proof
  assume "(5 / 2 :: rat) \<in> \<int>"
  then obtain z :: int where "(5 / 2 :: rat) = of_int z" by (auto elim: Ints_cases)
  then have "(of_int 5 :: rat) = of_int (2 * z)" by simp
  then have "5 = 2 * z" by (simp only: of_int_eq_iff)
  then show False by presburger
qed

lemma floor_five_halves: "\<lfloor>5 / 2 :: rat\<rfloor> = 2"
  by (simp add: floor_eq_iff)

lemma lower_char_simps: "lower_char c = (if (65 \<le> (of_char c :: nat) \<and> (of_char c :: nat) \<le> 90) \<or> (192 \<le> (of_char c :: nat) \<and> (of_char c :: nat) \<le> 222 \<and> (of_char c :: nat) \<noteq> 215) then char_of ((of_char c :: nat) + 32) else c)"
  by (simp add: lower_char_def Let_def)

text \<open>
  Claim C8, as amended. The search command throws a validation error, whatever the cache
  holds and so before the search runs, exactly when the query text is missing
  (\<^verbatim>\<open>--query is required\<close>) or the limit is NaN or not greater than zero
  (\<^verbatim>\<open>--limit must be a positive number\<close>). Every other limit is accepted, an integer or
  not: the command then returns the ranked results cut at the limit truncated to an
  integer, and all of them for an infinite limit.
\<close>

theorem search_meetings_limit_check:
  "search_meetings data query_arg (Some l) =
     (if arg_or_empty query_arg = [] then Inl (Error ''--query is required'')
      else if l = NaN \<or> l = NegInf \<or> (\<exists>r. l = Fin r \<and> r \<le> 0)
      then Inl (Error ''--limit must be a positive number'')
      else case searchMeetings data (arg_or_empty query_arg) PosInf of
             Inl err \<Rightarrow> Inl err
           | Inr ranked \<Rightarrow>
               Inr (SearchResults (case l of Fin r \<Rightarrow> take (nat \<lfloor>r\<rfloor>) ranked | _ \<Rightarrow> ranked)))"
  by (cases l) (auto simp: search_meetings_def searchMeetings_def max_def split: sum.splits)

theorem search_meetings_limit_check_witness:
  "search_meetings three_meetings (Some ''x'') (Some (Fin 0)) = Inl (Error ''--limit must be a positive number'')
   \<and> search_meetings three_meetings None (Some (Fin 0)) = Inl (Error ''--query is required'')"
  using search_meetings_limit_check [of three_meetings "Some ''x''" "Fin 0"]
    search_meetings_limit_check [of three_meetings None "Fin 0"]
  by (simp add: arg_or_empty_def)

text \<open>
  Claim C8 as stated fails: \<^verbatim>\<open>--limit 2.5\<close> is not a positive integer, and the search
  runs; it returns the two best of the three matches.
\<close>

theorem search_meetings_limit_counterexample:
  "(5 / 2 :: rat) \<notin> \<int>
   \<and> search_meetings three_meetings (Some ''x'') (Some (Fin (5 / 2)))
       = Inr (SearchResults [(3, titled ''c'' ''taxes'' [''max'']), (2, titled ''b'' ''box'' [])])"
  using five_halves_not_integer
  by (simp add: search_meetings_def arg_or_empty_def searchMeetings_def three_meetings_def empty_cache_def
      empty_dict_def titled_def meeting_score_def dict_get_def object_prototype_members_def
      toLowerCase_def lower_char_simps js_sort_def binary_insert_def Let_def floor_five_halves)

subsection \<open>What holds for keys that Object.prototype does not define\<close>

lemma fold_count: "fold (\<lambda>x n. if P x then n + 1 else n) xs (k :: nat) = k + length (filter P xs)"
  by (induction xs arbitrary: k) auto

lemma meeting_score_safe:
  assumes "safe_key meetingId" and "proto (transcripts data) = None"
  shows "meeting_score data (toLowerCase query) meetingId meeting
           = Inr (score_by_the_words data query meetingId meeting)"
proof (cases "map_of (own (transcripts data)) meetingId")
  case None
  with assms have "dict_get transcript_props (transcripts data) meetingId = Absent"
    by (simp add: dict_get_def safe_key_def)
  with None show ?thesis
    by (simp add: meeting_score_def score_by_the_words_def Let_def fold_count)
next
  case (Some t)
  then have "dict_get transcript_props (transcripts data) meetingId = Found t"
    by (simp add: dict_get_def)
  with Some show ?thesis
    by (simp add: meeting_score_def score_by_the_words_def Let_def fold_count)
qed

lemma search_loop_safe:
  assumes "\<forall>(k, m) \<in> set ms. safe_key k" and "proto (transcripts data) = None"
  shows "search_loop data (toLowerCase query) ms scored
           = Inr (scored @ map (\<lambda>(k, m). (score_by_the_words data query k m, m))
                             (filter (\<lambda>(k, m). 0 < score_by_the_words data query k m) ms))"
  using assms(1)
proof (induction ms arbitrary: scored)
  case Nil
  then show ?case by simp
next
  case (Cons x ms)
  obtain k m where x: "x = (k, m)" by (cases x)
  with Cons.prems have k: "safe_key k" and rest: "\<forall>(k, m) \<in> set ms. safe_key k" by auto
  show ?case
    unfolding x by (simp add: meeting_score_safe [OF k assms(2)] Cons.IH [OF rest])
qed

lemma fold_fold_bump: "fold (\<lambda>x. fold bump (f x)) xs acc = fold bump (concat (map f xs)) acc"
  by (induction xs arbitrary: acc) auto

lemma topics_counted:
  assumes "\<forall>w \<in> set (concat (map title_words ms)). safe_key w"
  shows "\<exists>counts. counted (concat (map title_words ms)) counts
                 \<and> analyzeTopicPatterns ms = (length ms, js_sort count_cmp counts)"
proof -
  have "counted (concat (map title_words ms)) (fold bump (concat (map title_words ms)) [])"
    using assms by (rule counted_from_empty)
  moreover have "analyzeTopicPatterns ms = (length ms, js_sort count_cmp (fold bump (concat (map title_words ms)) []))"
    by (simp only: analyzeTopicPatterns_def fold_fold_bump)
  ultimately show ?thesis by blast
qed

lemma slice_to_Nil: "slice_to limit [] = []"
  by (cases limit) simp_all

lemma missing_cache_not_found:
  assumes "files e (expandHome e cachePath) = None" and "safe_key meetingId" and "meetingId \<noteq> []"
  shows "loadCache e cachePath parsePanels = Inr (empty_cache\<lparr>lastUpdated := Some (clock e 0)\<rparr>)"
    and "get_meeting_details (empty_cache\<lparr>lastUpdated := Some (clock e 0)\<rparr>) (Some meetingId)
           = Inr (NotFound (''Meeting '' @ quoted meetingId @ '' not found''))"
    and "get_meeting_transcript (empty_cache\<lparr>lastUpdated := Some (clock e 0)\<rparr>) jsonOutput (Some meetingId)
           = Inr (NotFound (''No transcript available for meeting '' @ quoted meetingId))"
    and "get_meeting_documents (empty_cache\<lparr>lastUpdated := Some (clock e 0)\<rparr>) (Some meetingId)
           = Inr (NotFound (''No documents found for meeting '' @ quoted meetingId))"
    and "searchMeetings (empty_cache\<lparr>lastUpdated := Some (clock e 0)\<rparr>) query limit = Inr []"
    and "analyzeFrequencyPatterns [] = \<lparr>meetingCount = 0, byMonth = [], averagePerMonth = 0\<rparr>"
  using assms
  by (simp_all add: loadCache_def get_meeting_details_def get_meeting_transcript_def get_meeting_documents_def
      documents_of_def searchMeetings_def empty_cache_def empty_dict_def arg_or_empty_def dict_get_def safe_key_def
      js_sort_def analyzeFrequencyPatterns_def slice_to_Nil)

subsection \<open>Keys that Object.prototype defines\<close>

text \<open>
  Claim C4 fails on a title that holds the word \<^verbatim>\<open>constructor\<close>: the token passes the
  filters, and what is stored for it is not the number of its occurrences but a text, the
  inherited \<^verbatim>\<open>Object\<close> function with \<^verbatim>\<open>1\<close> appended.
\<close>

theorem topics_constructor_title:
  "analyzeTopicPatterns [titled ''m1'' ''Constructor Review'' []]
     = (1, [(''constructor'', Str ''function Object() { [native code] }1''), (''review'', Num 1)])"
  by code_simp

text \<open>
  Claim C1 fails on a cache built from a record stored under the id \<^verbatim>\<open>constructor\<close>:
  the search finds the inherited \<^verbatim>\<open>Object\<close> function where it looks for the transcript
  of the meeting, and throws instead of returning the meeting with score 2.
\<close>

theorem search_constructor_id:
  "parseCacheData sample_env constructor_raw True = Inr constructor_cache
   \<and> searchMeetings constructor_cache ''x'' (Fin 10) = Inl TypeError"
  by (simp add: parseCacheData_def sample_env_def constructor_raw_def constructor_cache_def titled_def
      record_of_def empty_cache_def empty_dict_def
      build_meeting_def nonblank_field_def blank_def trim_def is_space_def person_name_def parseIsoDate_def
      replace_final_Z_def dict_set_def set_own_def array_index_def is_digit_def
      dict_get_def build_document_def content_parts_def notes_parts_def blank_line_def
      searchMeetings_def meeting_score_def object_prototype_members_def toLowerCase_def lower_char_simps)

text \<open>
  Claim C7 fails for the details of the meeting id \<^verbatim>\<open>constructor\<close>: the cache file is
  missing and the model is empty, yet the lookup finds the inherited \<^verbatim>\<open>Object\<close>
  function, and the command throws instead of reporting that the meeting is not found.
\<close>

theorem details_of_missing_cache:
  "loadCache sample_env DEFAULT_CACHE_PATH True = Inr (empty_cache\<lparr>lastUpdated := Some 1000\<rparr>)
   \<and> main sample_env None True False (GetMeetingDetails (Some ''constructor'')) = Inl TypeError"
  by (simp add: main_def loadCache_def sample_env_def arg_or_empty_def get_meeting_details_def
      empty_cache_def empty_dict_def dict_get_def object_prototype_members_def)

end
